theory Spec2Isabelle
  imports Main
begin

section \<open>Go types\<close>

text \<open>
  The analysis (package \<open>pointer\<close>, file gen.go and reflect.go) works on typed SSA.
  Only the shape of a type matters to the generator: its underlying constructor and the
  components reached by \<open>Elem\<close>, \<open>Key\<close>, \<open>Recv\<close>, \<open>Params\<close> and \<open>Results\<close>.
\<close>

datatype basic_kind =
  BInvalid | BBool | BInt | BUintptr | BFloat64 | BString | BUnsafePointer | BUntypedNil

datatype gotype =
    Basic basic_kind
  | Pointer gotype
  | Slice gotype
  | Array gotype nat
  | Map gotype gotype
  | Chan gotype
  | Struct "(string \<times> gotype) list"
  | Tuple "gotype list"
  | Signature "gotype option" "gotype list" "gotype list"
  | Interface "string list"
  | Named string gotype

definition tInvalid :: gotype where
  "tInvalid = Basic BInvalid"

definition tUnsafePtr :: gotype where
  "tUnsafePtr = Basic BUnsafePointer"

definition tEface :: gotype where
  "tEface = Interface []"

fun underlying :: "gotype \<Rightarrow> gotype" where
  "underlying (Named n t) = underlying t"
| "underlying t = t"

section \<open>Errors\<close>

text \<open>
  Every \<open>panic\<close> of the source is a value: \<open>Panic\<close> carries the message of an explicit
  \<open>panic(...)\<close>; the others are the run-time panics of Go (index out of range, nil
  dereference, write to a nil map, failed type assertion).
\<close>

datatype error =
    Panic string
  | IndexOutOfRange
  | NilDeref
  | NilMapWrite
  | TypeAssertFail

text \<open>
  The helpers \<open>mustDeref\<close> and \<open>sliceToArray\<close> are declared in util.go, which is not among
  the sources; they are modelled from their uses in gen.go: \<open>mustDeref(T)\<close> is
  \<open>T.Underlying().(*types.Pointer).Elem()\<close> and \<open>sliceToArray(T)\<close> is the array type
  \<open>[1]E\<close> for \<open>E = T.Underlying().(*types.Slice).Elem()\<close> (gen.go: "This may allocate a new
  [1]T array"). A failed type assertion panics.
\<close>

definition mustDeref :: "gotype \<Rightarrow> gotype option" where
  "mustDeref t = (case underlying t of Pointer e \<Rightarrow> Some e | _ \<Rightarrow> None)"

definition sliceToArray :: "gotype \<Rightarrow> gotype option" where
  "sliceToArray t = (case underlying t of Slice e \<Rightarrow> Some (Array e 1) | _ \<Rightarrow> None)"

definition arrayElem :: "gotype \<Rightarrow> gotype" where
  "arrayElem t = (case t of Array e n \<Rightarrow> e | _ \<Rightarrow> t)"

definition sigParts :: "gotype \<Rightarrow> (gotype option \<times> gotype list \<times> gotype list) option" where
  "sigParts t = (case t of Signature r ps rs \<Rightarrow> Some (r, ps, rs) | _ \<Rightarrow> None)"

section \<open>SSA values and instructions\<close>

text \<open>
  An \<open>ssa.Value\<close> is identified by its name (pointer identity in Go); operands are
  sub-terms. \<open>KOther\<close> stands for the value-producing instructions that the modelled
  functions do not distinguish (Phi, BinOp, UnOp, Extract, ...).
\<close>

datatype ssa_value = Val (vname: string) (vtype: gotype) (vkind: vkind)
and vkind =
    KAlloc
  | KGlobal
  | KFunction (fsynthetic: string) (fpkg: "string option")
  | KConst bool
  | KCapture
  | KParameter
  | KBuiltin
  | KMakeSlice
  | KMakeChan
  | KMakeMap
  | KMakeInterface ssa_value
  | KFieldAddr ssa_value nat
  | KIndexAddr ssa_value
  | KSlice ssa_value
  | KConvert ssa_value
  | KCall call_common
  | KMakeClosure ssa_value "ssa_value list"
  | KOther
and call_common = CallCommon (cvalue: ssa_value) (cmethod: "string option") (cargs: "ssa_value list")

text \<open>A \<open>*ssa.Function\<close> obtained from the program (\<open>prog.Method\<close>), and the value it is.\<close>

datatype func = Func string gotype string "string option"

fun funcValue :: "func \<Rightarrow> ssa_value" where
  "funcValue (Func n t syn pkg) = Val n t (KFunction syn pkg)"

datatype instruction =
    IValue ssa_value
  | IGo call_common
  | IDefer call_common
  | IOther

text \<open>
  The parts of the SSA program that are reached through pointers which may be cyclic
  (a function's blocks, an instruction's parent, a package's members) are tables.
\<close>

record program =
  fn_blocks :: "ssa_value \<Rightarrow> instruction list list option"
  instr_parent :: "ssa_value \<Rightarrow> ssa_value"
  instr_pos :: "ssa_value \<Rightarrow> nat"
  pkg_func :: "string \<Rightarrow> string \<Rightarrow> ssa_value option"
  pkg_var :: "string \<Rightarrow> string \<Rightarrow> ssa_value option"
  imported_package :: "string \<Rightarrow> string option"
  method_funcs :: "gotype \<Rightarrow> func list"
  is_intrinsic :: "ssa_value \<Rightarrow> bool"

section \<open>Nodes, objects, constraints and the analysis state\<close>

datatype oflag = otTagged | otIndirect | otFunction

datatype objdata =
    DataNil
  | DataValue ssa_value
  | DataType gotype
  | DataString string

record callsite =
  cs_targets :: nat
  cs_instr :: "instruction option"

record cgnode =
  cg_fn :: ssa_value
  cg_obj :: nat
  cg_callersite :: "nat option"

record object =
  o_size :: nat
  o_cgn :: "cgnode option"
  o_data :: objdata
  o_flags :: "oflag set"

record fieldInfo =
  fi_typ :: gotype
  fi_path :: string

record node =
  n_typ :: gotype
  n_subelement :: "fieldInfo option"
  n_obj :: "object option"
  n_pts :: "nat set"

datatype constraint =
    AddrC nat nat
  | CopyC nat nat
  | LoadC nat nat nat
  | StoreC nat nat nat
  | OffsetAddrC nat nat nat
  | TypeAssertC gotype nat nat
  | InvokeC string nat nat
  | ReflectTypeOfC cgnode nat nat
  | ReflectZeroC cgnode nat nat

datatype warning = UnsafePointerConversion ssa_value gotype

text \<open>
  The struct \<open>analysis\<close> is declared in analysis.go (not among the sources); its fields are
  taken from their uses. Node ids index \<open>nodes\<close> and are natural numbers. The flattener
  (\<open>a.flatten\<close>, \<open>a.offsetOf\<close>, util.go) is not among the sources either: it is a
  parameter of the state, and \<open>sizeof\<close> is the length of the flattening. The client's
  print hook is an external callback; its invocations are recorded in \<open>printed\<close>. The
  debug log (\<open>a.log\<close>) is not modelled.
\<close>

record analysis =
  prog :: program
  flatten :: "gotype \<Rightarrow> fieldInfo list"
  offsetOf :: "gotype \<Rightarrow> nat \<Rightarrow> nat"
  cfg_queries :: "ssa_value \<rightharpoonup> bool"
  cfg_print :: bool
  panicNode :: nat
  nodes :: "node list"
  constraints :: "constraint list"
  cgnodes :: "cgnode list"
  genq :: "cgnode list"
  sites :: "callsite list"
  probes :: "instruction \<rightharpoonup> nat"
  globalval :: "ssa_value \<rightharpoonup> nat"
  globalobj :: "ssa_value \<rightharpoonup> nat"
  localval :: "(ssa_value \<rightharpoonup> nat) option"
  localobj :: "(ssa_value \<rightharpoonup> nat) option"
  work :: "nat set"
  res_queries :: "ssa_value \<Rightarrow> (cgnode option \<times> nat) list"
  res_warnings :: "(nat \<times> warning) list"
  printed :: "(instruction \<times> nat) list"
  rtypes :: "gotype \<rightharpoonup> nat"
  reflectZeros :: "gotype \<rightharpoonup> nat"
  reflectRtypePtr :: "gotype option"

text \<open>Modelled from the spec: \<open>sizeof(T)\<close> is the length of the flattening of \<open>T\<close> (4.1).\<close>

definition sizeof :: "analysis \<Rightarrow> gotype \<Rightarrow> nat" where
  "sizeof a t = length (flatten a t)"

subsection \<open>Node creation\<close>

definition nextNode :: "analysis \<Rightarrow> nat" where
  "nextNode a = length (nodes a)"

definition addOneNode :: "gotype \<Rightarrow> string \<Rightarrow> fieldInfo option \<Rightarrow> analysis \<Rightarrow> nat \<times> analysis" where
  "addOneNode t comment subelement a =
     (nextNode a,
      a\<lparr>nodes := nodes a @ [\<lparr>n_typ = t, n_subelement = subelement, n_obj = None, n_pts = {}\<rparr>]\<rparr>)"

primrec addFieldNodes :: "string \<Rightarrow> fieldInfo list \<Rightarrow> analysis \<Rightarrow> analysis" where
  "addFieldNodes comment [] a = a"
| "addFieldNodes comment (fi # fis) a =
     addFieldNodes comment fis (snd (addOneNode (fi_typ fi) comment (Some fi) a))"

definition addNodes :: "gotype \<Rightarrow> string \<Rightarrow> analysis \<Rightarrow> nat \<times> analysis" where
  "addNodes t comment a =
     (let n = nextNode a;
          a' = addFieldNodes comment (flatten a t) a
      in if n = nextNode a' then (0, a') else (n, a'))"

definition endObject :: "nat \<Rightarrow> cgnode option \<Rightarrow> objdata \<Rightarrow> analysis \<Rightarrow> error + analysis" where
  "endObject obj cgn data a =
     (if nextNode a < obj then Inl IndexOutOfRange
      else
        let size = nextNode a - obj;
            a1 = (if size = 0 then snd (addOneNode tInvalid ''padding'' None a) else a);
            hdr = \<lparr>o_size = size, o_cgn = cgn, o_data = data, o_flags = {}\<rparr>
        in if length (nodes a1) \<le> obj then Inl IndexOutOfRange
           else Inr (a1\<lparr>nodes := (nodes a1)[obj := (nodes a1 ! obj)\<lparr>n_obj := Some hdr\<rparr>]\<rparr>))"

text \<open>
  \<open>endObject\<close> returns the pointer to the header it installed at \<open>nodes[obj]\<close>; the callers
  only use it for \<open>.flags |= f\<close>, which is this update through the alias.
\<close>

definition orFlags :: "nat \<Rightarrow> oflag \<Rightarrow> analysis \<Rightarrow> analysis" where
  "orFlags obj f a =
     a\<lparr>nodes := (nodes a)[obj := (nodes a ! obj)
          \<lparr>n_obj := map_option (\<lambda>h. h\<lparr>o_flags := insert f (o_flags h)\<rparr>) (n_obj (nodes a ! obj))\<rparr>]\<rparr>"

definition makeCGNode :: "ssa_value \<Rightarrow> nat \<Rightarrow> nat option \<Rightarrow> analysis \<Rightarrow> cgnode \<times> analysis" where
  "makeCGNode fn obj callersite a =
     (let cgn = \<lparr>cg_fn = fn, cg_obj = obj, cg_callersite = callersite\<rparr>
      in (cgn, a\<lparr>cgnodes := cgnodes a @ [cgn]\<rparr>))"

definition makeFunctionObject :: "ssa_value \<Rightarrow> nat option \<Rightarrow> analysis \<Rightarrow> error + (nat \<times> analysis)" where
  "makeFunctionObject fn callersite a =
     (let obj = nextNode a;
          (cgn, a1) = makeCGNode fn obj callersite a
      in case sigParts (vtype fn) of
           None \<Rightarrow> Inl TypeAssertFail
         | Some (recv, params, results) \<Rightarrow>
             let a2 = snd (addOneNode (vtype fn) ''func.cgnode'' None a1);
                 a3 = (case recv of None \<Rightarrow> a2 | Some r \<Rightarrow> snd (addNodes r ''func.recv'' a2));
                 a4 = snd (addNodes (Tuple params) ''func.params'' a3);
                 a5 = snd (addNodes (Tuple results) ''func.results'' a4)
             in case endObject obj (Some cgn) (DataValue fn) a5 of
                  Inl e \<Rightarrow> Inl e
                | Inr a6 \<Rightarrow>
                    let a7 = orFlags obj otFunction a6
                    in Inr (obj, a7\<lparr>genq := genq a7 @ [cgn]\<rparr>))"

definition makeTagged :: "gotype \<Rightarrow> cgnode option \<Rightarrow> objdata \<Rightarrow> analysis \<Rightarrow> error + (nat \<times> analysis)" where
  "makeTagged t cgn data a =
     (let (obj, a1) = addOneNode t ''tagged.T'' None a;
          a2 = snd (addNodes t ''tagged.v'' a1)
      in case endObject obj cgn data a2 of
           Inl e \<Rightarrow> Inl e
         | Inr a3 \<Rightarrow> Inr (obj, orFlags obj otTagged a3))"

subsection \<open>Constraint creation\<close>

definition addConstraint :: "constraint \<Rightarrow> analysis \<Rightarrow> analysis" where
  "addConstraint c a = a\<lparr>constraints := constraints a @ [c]\<rparr>"

text \<open>
  The loops of \<open>copy\<close>, \<open>load\<close> and \<open>store\<close> step their ids and offsets with \<open>++\<close>.
  \<open>offset\<close> is a \<open>uint32\<close>; \<open>nodeid\<close> is declared in analysis.go (not among the sources)
  and is taken to be 32 bits wide too, the width \<open>endObject\<close> converts a difference of
  node ids to (\<open>uint32(a.nextNode() - obj)\<close>). The increment wraps around.
\<close>

definition incr32 :: "nat \<Rightarrow> nat" where
  "incr32 n = (n + 1) mod 2 ^ 32"

text \<open>\<open>obj + nodeid(offset)\<close> in \<open>genLoad\<close> and \<open>genStore\<close>: addition of node ids wraps around.\<close>

definition add32 :: "nat \<Rightarrow> nat \<Rightarrow> nat" where
  "add32 n k = (n + k) mod 2 ^ 32"

primrec copy_loop :: "nat \<Rightarrow> nat \<Rightarrow> nat \<Rightarrow> analysis \<Rightarrow> analysis" where
  "copy_loop 0 dst src a = a"
| "copy_loop (Suc n) dst src a =
     copy_loop n (incr32 dst) (incr32 src) (addConstraint (CopyC dst src) a)"

definition copy :: "nat \<Rightarrow> nat \<Rightarrow> nat \<Rightarrow> analysis \<Rightarrow> error + analysis" where
  "copy dst src sz a =
     (if src = dst \<or> sz = 0 then Inr a
      else if src = 0 \<or> dst = 0 then Inl (Panic ''ill-typed copy'')
      else Inr (copy_loop sz dst src a))"

definition addressOf :: "nat \<Rightarrow> nat \<Rightarrow> analysis \<Rightarrow> error + analysis" where
  "addressOf n obj a =
     (if n = 0 then Inl (Panic ''addressOf: zero id'')
      else if obj = 0 then Inl (Panic ''addressOf: zero obj'')
      else Inr (addConstraint (AddrC n obj) a))"

primrec load_loop :: "nat \<Rightarrow> nat \<Rightarrow> nat \<Rightarrow> nat \<Rightarrow> analysis \<Rightarrow> analysis" where
  "load_loop 0 dst src offset a = a"
| "load_loop (Suc n) dst src offset a =
     load_loop n (incr32 dst) src (incr32 offset) (addConstraint (LoadC offset dst src) a)"

definition load :: "nat \<Rightarrow> nat \<Rightarrow> nat \<Rightarrow> nat \<Rightarrow> analysis \<Rightarrow> error + analysis" where
  "load dst src offset sz a =
     (if dst = 0 then Inr a
      else if src = 0 \<and> dst = 0 then Inr a
      else if src = 0 \<or> dst = 0 then Inl (Panic ''ill-typed load'')
      else Inr (load_loop sz dst src offset a))"

primrec store_loop :: "nat \<Rightarrow> nat \<Rightarrow> nat \<Rightarrow> nat \<Rightarrow> analysis \<Rightarrow> analysis" where
  "store_loop 0 dst src offset a = a"
| "store_loop (Suc n) dst src offset a =
     store_loop n dst (incr32 src) (incr32 offset) (addConstraint (StoreC offset dst src) a)"

definition store :: "nat \<Rightarrow> nat \<Rightarrow> nat \<Rightarrow> nat \<Rightarrow> analysis \<Rightarrow> error + analysis" where
  "store dst src offset sz a =
     (if src = 0 then Inr a
      else if src = 0 \<and> dst = 0 then Inr a
      else if src = 0 \<or> dst = 0 then Inl (Panic ''ill-typed store'')
      else Inr (store_loop sz dst src offset a))"

definition offsetAddr :: "nat \<Rightarrow> nat \<Rightarrow> nat \<Rightarrow> analysis \<Rightarrow> error + analysis" where
  "offsetAddr dst src offset a =
     (if offset = 0 then copy dst src 1 a
      else Inr (addConstraint (OffsetAddrC offset dst src) a))"

definition typeAssert :: "gotype \<Rightarrow> nat \<Rightarrow> nat \<Rightarrow> analysis \<Rightarrow> analysis" where
  "typeAssert t dst src a = addConstraint (TypeAssertC t dst src) a"


subsection \<open>Value nodes and object nodes\<close>

text \<open>
  \<open>objectNode(cgn, v)\<close> has two halves. The half for \<open>cgn == nil\<close> (global objects) creates
  the object of a global, a function or a slice constant and does not recurse.
\<close>

definition objectNode_global :: "ssa_value \<Rightarrow> analysis \<Rightarrow> error + (nat \<times> analysis)" where
  "objectNode_global v a =
     (case globalobj a v of
        Some obj \<Rightarrow> Inr (obj, a)
      | None \<Rightarrow>
          (case
             (case vkind v of
                KGlobal \<Rightarrow>
                  (case mustDeref (vtype v) of
                     None \<Rightarrow> Inl TypeAssertFail
                   | Some t \<Rightarrow>
                       (case endObject (nextNode a) None (DataValue v) (snd (addNodes t ''global'' a)) of
                          Inl e \<Rightarrow> Inl e
                        | Inr a1 \<Rightarrow> Inr (nextNode a, a1)))
              | KFunction syn pkg \<Rightarrow> makeFunctionObject v None a
              | KConst isNil \<Rightarrow>
                  (case underlying (vtype v) of
                     Slice e \<Rightarrow>
                       if \<not> isNil then
                         (case endObject (nextNode a) None (DataValue v)
                                 (snd (addNodes (Array e 1) ''array in slice constant'' a)) of
                            Inl e \<Rightarrow> Inl e
                          | Inr a1 \<Rightarrow> Inr (nextNode a, a1))
                       else Inr (0, a)
                   | _ \<Rightarrow> Inr (0, a))
              | _ \<Rightarrow> Inr (0, a)) of
             Inl e \<Rightarrow> Inl e
           | Inr (obj, a1) \<Rightarrow> Inr (obj, a1\<lparr>globalobj := (globalobj a1)(v \<mapsto> obj)\<rparr>)))"

text \<open>The two map reads at the head of \<open>valueNode\<close>; reading a nil map finds nothing.\<close>

definition lookupLocal :: "(ssa_value \<rightharpoonup> nat) option \<Rightarrow> ssa_value \<Rightarrow> nat option" where
  "lookupLocal m v = (case m of None \<Rightarrow> None | Some f \<Rightarrow> f v)"

definition cachedValue :: "analysis \<Rightarrow> ssa_value \<Rightarrow> nat option" where
  "cachedValue a v =
     (case lookupLocal (localval a) v of Some n \<Rightarrow> Some n | None \<Rightarrow> globalval a v)"

fun vrank :: "ssa_value \<Rightarrow> nat" and krank :: "vkind \<Rightarrow> nat" where
  "vrank (Val n t k) = krank k"
| "krank (KMakeInterface x) = vrank x + 2"
| "krank (KFieldAddr x f) = vrank x + 1"
| "krank (KIndexAddr x) = vrank x + 1"
| "krank (KSlice x) = vrank x + 1"
| "krank k = 0"



subsection \<open>Closed forms of the node-creating operations\<close>

definition fieldNode :: "fieldInfo \<Rightarrow> node" where
  "fieldNode fi = \<lparr>n_typ = fi_typ fi, n_subelement = Some fi, n_obj = None, n_pts = {}\<rparr>"

definition installHeader :: "nat \<Rightarrow> cgnode option \<Rightarrow> objdata \<Rightarrow> node list \<Rightarrow> node list" where
  "installHeader obj cgn d ns =
     (if obj = length ns
      then ns @ [\<lparr>n_typ = tInvalid, n_subelement = None,
             n_obj = Some \<lparr>o_size = 0, o_cgn = cgn, o_data = d, o_flags = {}\<rparr>, n_pts = {}\<rparr>]
      else ns[obj := (ns ! obj)
             \<lparr>n_obj := Some \<lparr>o_size = length ns - obj, o_cgn = cgn, o_data = d, o_flags = {}\<rparr>\<rparr>])"

text \<open>The fields that the generator of value and object nodes never writes.\<close>

definition static_part where
  "static_part a =
     (prog a, flatten a, offsetOf a, cfg_queries a, cfg_print a, panicNode a, sites a, probes a,
      work a, res_warnings a, printed a, rtypes a, reflectZeros a, reflectRtypePtr a)"

lemma static_part_upd [simp]:
  "static_part (nodes_update f1 a) = static_part a"
  "static_part (constraints_update f2 a) = static_part a"
  "static_part (cgnodes_update f3 a) = static_part a"
  "static_part (genq_update f4 a) = static_part a"
  "static_part (globalval_update f5 a) = static_part a"
  "static_part (globalobj_update f6 a) = static_part a"
  "static_part (localval_update f7 a) = static_part a"
  "static_part (localobj_update f8 a) = static_part a"
  "static_part (res_queries_update f9 a) = static_part a"
  by (simp_all add: static_part_def)

lemma static_partD:
  assumes "static_part a' = static_part a"
  shows "prog a' = prog a" "flatten a' = flatten a" "offsetOf a' = offsetOf a"
    "cfg_queries a' = cfg_queries a" "cfg_print a' = cfg_print a" "panicNode a' = panicNode a"
    "sites a' = sites a" "probes a' = probes a" "work a' = work a"
    "res_warnings a' = res_warnings a" "printed a' = printed a" "rtypes a' = rtypes a"
    "reflectZeros a' = reflectZeros a" "reflectRtypePtr a' = reflectRtypePtr a"
  using assms by (simp_all add: static_part_def)

lemma addOneNode_eq:
  "addOneNode t c sub a =
     (length (nodes a),
      a\<lparr>nodes := nodes a @ [\<lparr>n_typ = t, n_subelement = sub, n_obj = None, n_pts = {}\<rparr>]\<rparr>)"
  by (simp add: addOneNode_def nextNode_def)

lemma addFieldNodes_eq:
  "addFieldNodes c fis a = a\<lparr>nodes := nodes a @ map fieldNode fis\<rparr>"
  by (induction fis arbitrary: a) (simp_all add: addOneNode_def fieldNode_def)

lemma addNodes_eq:
  "addNodes t c a =
     (if flatten a t = [] then 0 else length (nodes a),
      a\<lparr>nodes := nodes a @ map fieldNode (flatten a t)\<rparr>)"
  by (simp add: addNodes_def Let_def addFieldNodes_eq nextNode_def)

lemma endObject_eq:
  "endObject obj cgn d a =
     (if length (nodes a) < obj then Inl IndexOutOfRange
      else Inr (a\<lparr>nodes := installHeader obj cgn d (nodes a)\<rparr>))"
  by (auto simp: endObject_def Let_def addOneNode_def nextNode_def installHeader_def)

lemma length_installHeader:
  "length (installHeader obj cgn d ns) = (if obj = length ns then Suc (length ns) else length ns)"
  by (simp add: installHeader_def)

lemma orFlags_eq:
  "orFlags obj f a = a\<lparr>nodes := (nodes a)[obj := (nodes a ! obj)
      \<lparr>n_obj := map_option (\<lambda>h. h\<lparr>o_flags := insert f (o_flags h)\<rparr>) (n_obj (nodes a ! obj))\<rparr>]\<rparr>"
  by (simp add: orFlags_def)

text \<open>The recurring sequence \<open>obj = a.nextNode(); a.addNodes(T, c); a.endObject(obj, cgn, d)\<close>.\<close>

lemma endObject_addNodes:
  "endObject (length (nodes a)) cgn d (snd (addNodes t c a)) =
     Inr (a\<lparr>nodes := installHeader (length (nodes a)) cgn d (nodes a @ map fieldNode (flatten a t))\<rparr>)"
  by (simp add: endObject_eq addNodes_eq)

definition funcObjectNodes :: "analysis \<Rightarrow> ssa_value \<Rightarrow> nat option \<Rightarrow> node list" where
  "funcObjectNodes a fn cs =
     (case sigParts (vtype fn) of
        None \<Rightarrow> []
      | Some (recv, params, results) \<Rightarrow>
          (let ns = installHeader (length (nodes a))
                      (Some \<lparr>cg_fn = fn, cg_obj = length (nodes a), cg_callersite = cs\<rparr>) (DataValue fn)
                      (nodes a @ [\<lparr>n_typ = vtype fn, n_subelement = None, n_obj = None, n_pts = {}\<rparr>]
                         @ (case recv of None \<Rightarrow> [] | Some r \<Rightarrow> map fieldNode (flatten a r))
                         @ map fieldNode (flatten a (Tuple params))
                         @ map fieldNode (flatten a (Tuple results)))
           in ns[length (nodes a) := (ns ! length (nodes a))
                \<lparr>n_obj := map_option (\<lambda>h. h\<lparr>o_flags := insert otFunction (o_flags h)\<rparr>)
                            (n_obj (ns ! length (nodes a)))\<rparr>]))"

lemma makeFunctionObject_eq:
  "makeFunctionObject fn cs a =
     (if sigParts (vtype fn) = None then Inl TypeAssertFail
      else Inr (length (nodes a),
               a\<lparr>cgnodes := cgnodes a @ [\<lparr>cg_fn = fn, cg_obj = length (nodes a), cg_callersite = cs\<rparr>],
                 nodes := funcObjectNodes a fn cs,
                 genq := genq a @ [\<lparr>cg_fn = fn, cg_obj = length (nodes a), cg_callersite = cs\<rparr>]\<rparr>))"
  by (simp add: makeFunctionObject_def Let_def makeCGNode_def addOneNode_def addNodes_eq orFlags_def
      endObject_eq nextNode_def funcObjectNodes_def split: option.splits)

lemma length_funcObjectNodes:
  "sigParts (vtype fn) = Some p \<Longrightarrow> length (nodes a) < length (funcObjectNodes a fn cs)"
  by (cases p) (auto simp: funcObjectNodes_def Let_def length_installHeader split: option.splits)

lemma objectNode_global_frame:
  assumes "objectNode_global v a = Inr (obj, a')"
  shows "static_part a' = static_part a \<and> localval a' = localval a \<and> globalval a' = globalval a \<and>
    localobj a' = localobj a \<and> constraints a' = constraints a \<and>
    res_queries a' = res_queries a \<and> length (nodes a) \<le> length (nodes a')"
proof (cases "globalobj a v")
  case (Some n)
  with assms have "a' = a" by (simp add: objectNode_global_def)
  then show ?thesis by simp
next
  case None
  have same: ?thesis if "a' = a\<lparr>globalobj := (globalobj a)(v \<mapsto> obj)\<rparr>"
    using that by simp
  have alloc: ?thesis
    if "a' = a\<lparr>nodes := installHeader (length (nodes a)) None (DataValue v)
              (nodes a @ map fieldNode (flatten a t)),
            globalobj := (globalobj a)(v \<mapsto> obj)\<rparr>" for t
    using that by (simp add: length_installHeader)
  show ?thesis
  proof (cases "vkind v")
    case KGlobal
    with None assms obtain t where
      "a' = a\<lparr>nodes := installHeader (length (nodes a)) None (DataValue v)
              (nodes a @ map fieldNode (flatten a t)),
            globalobj := (globalobj a)(v \<mapsto> obj)\<rparr>"
      by (cases "mustDeref (vtype v)")
         (auto simp: objectNode_global_def endObject_addNodes nextNode_def)
    then show ?thesis by (rule alloc)
  next
    case (KFunction syn pkg)
    with None assms obtain p where p: "sigParts (vtype v) = Some p" and
      a': "a' = a\<lparr>cgnodes := cgnodes a @ [\<lparr>cg_fn = v, cg_obj = length (nodes a), cg_callersite = None\<rparr>],
                 nodes := funcObjectNodes a v None,
                 genq := genq a @ [\<lparr>cg_fn = v, cg_obj = length (nodes a), cg_callersite = None\<rparr>],
                 globalobj := (globalobj a)(v \<mapsto> obj)\<rparr>"
      by (cases "sigParts (vtype v)") (auto simp: objectNode_global_def makeFunctionObject_eq)
    from length_funcObjectNodes[OF p, of a None] a' show ?thesis
      by simp
  next
    case (KConst isNil)
    show ?thesis
    proof (cases "\<exists>e. underlying (vtype v) = Slice e \<and> \<not> isNil")
      case True
      then obtain e where "underlying (vtype v) = Slice e" "\<not> isNil" by blast
      with None assms KConst have
        "a' = a\<lparr>nodes := installHeader (length (nodes a)) None (DataValue v)
              (nodes a @ map fieldNode (flatten a (Array e 1))),
            globalobj := (globalobj a)(v \<mapsto> obj)\<rparr>"
        by (auto simp: objectNode_global_def endObject_addNodes nextNode_def)
      then show ?thesis by (rule alloc)
    next
      case False
      with None assms KConst have "a' = a\<lparr>globalobj := (globalobj a)(v \<mapsto> obj)\<rparr>"
        by (auto simp: objectNode_global_def split: gotype.splits)
      then show ?thesis by (rule same)
    qed
  qed (use None assms in \<open>auto simp: objectNode_global_def intro!: same\<close>)
qed

lemma vrank_kind: "vrank v = krank (vkind v)"
  by (cases v) simp

lemma vrank_funcValue [simp]: "vrank (funcValue f) = 0"
  by (cases f) simp

text \<open>
  The half of \<open>objectNode\<close> for a contour (\<open>cgn != nil\<close>), \<open>valueNode\<close>,
  \<open>setValueNode\<close> and \<open>genLoad\<close> call each other: \<open>objectNode\<close> creates the value
  nodes of the methods and of the operand of a \<open>MakeInterface\<close>, \<open>valueNode\<close> records a new
  global with \<open>setValueNode\<close>, which for an indirect query calls \<open>genLoad\<close>, which
  calls \<open>objectNode\<close> and \<open>valueNode\<close>. \<open>methodNodes\<close> is the loop over the method set.
  Writing to a nil map (\<open>localval\<close>, \<open>localobj\<close> outside \<open>genFunc\<close>) panics.
\<close>

function (sequential)
    objectNode_local :: "cgnode \<Rightarrow> ssa_value \<Rightarrow> analysis \<Rightarrow> error + (nat \<times> analysis)"
and valueNode :: "ssa_value \<Rightarrow> analysis \<Rightarrow> error + (nat \<times> analysis)"
and setValueNode :: "ssa_value \<Rightarrow> nat \<Rightarrow> cgnode option \<Rightarrow> analysis \<Rightarrow> error + analysis"
and genLoad :: "cgnode option \<Rightarrow> nat \<Rightarrow> ssa_value \<Rightarrow> nat \<Rightarrow> nat \<Rightarrow> analysis \<Rightarrow> error + analysis"
and methodNodes :: "func list \<Rightarrow> analysis \<Rightarrow> error + analysis"
where
  "objectNode_local cgn v a =
     (case lookupLocal (localobj a) v of
        Some obj \<Rightarrow> Inr (obj, a)
      | None \<Rightarrow>
          (case
             (case vkind v of
                KAlloc \<Rightarrow>
                  (case mustDeref (vtype v) of
                     None \<Rightarrow> Inl TypeAssertFail
                   | Some t \<Rightarrow>
                       (case endObject (nextNode a) (Some cgn) (DataValue v) (snd (addNodes t ''alloc'' a)) of
                          Inl e \<Rightarrow> Inl e
                        | Inr a1 \<Rightarrow> Inr (nextNode a, a1)))
              | KMakeSlice \<Rightarrow>
                  (case sliceToArray (vtype v) of
                     None \<Rightarrow> Inl TypeAssertFail
                   | Some t \<Rightarrow>
                       (case endObject (nextNode a) (Some cgn) (DataValue v) (snd (addNodes t ''makeslice'' a)) of
                          Inl e \<Rightarrow> Inl e
                        | Inr a1 \<Rightarrow> Inr (nextNode a, a1)))
              | KMakeChan \<Rightarrow>
                  (case underlying (vtype v) of
                     Chan t \<Rightarrow>
                       (case endObject (nextNode a) (Some cgn) (DataValue v) (snd (addNodes t ''makechan'' a)) of
                          Inl e \<Rightarrow> Inl e
                        | Inr a1 \<Rightarrow> Inr (nextNode a, a1))
                   | _ \<Rightarrow> Inl TypeAssertFail)
              | KMakeMap \<Rightarrow>
                  (case underlying (vtype v) of
                     Map tk te \<Rightarrow>
                       (case endObject (nextNode a) (Some cgn) (DataValue v)
                               (snd (addNodes te ''makemap.value'' (snd (addNodes tk ''makemap.key'' a)))) of
                          Inl e \<Rightarrow> Inl e
                        | Inr a1 \<Rightarrow> Inr (nextNode a, a1))
                   | _ \<Rightarrow> Inl TypeAssertFail)
              | KMakeInterface x \<Rightarrow>
                  (case methodNodes (method_funcs (prog a) (vtype x)) a of
                     Inl e \<Rightarrow> Inl e
                   | Inr a1 \<Rightarrow>
                       (case makeTagged (vtype x) (Some cgn) (DataValue v) a1 of
                          Inl e \<Rightarrow> Inl e
                        | Inr (obj, a2) \<Rightarrow>
                            (case valueNode x a2 of
                               Inl e \<Rightarrow> Inl e
                             | Inr (xn, a3) \<Rightarrow>
                                 if xn \<noteq> 0 then
                                   (case copy (obj + 1) xn (sizeof a3 (vtype x)) a3 of
                                      Inl e \<Rightarrow> Inl e
                                    | Inr a4 \<Rightarrow> Inr (obj, a4))
                                 else Inr (obj, a3))))
              | KFieldAddr x f \<Rightarrow>
                  (case objectNode_local cgn x a of
                     Inl e \<Rightarrow> Inl e
                   | Inr (xobj, a1) \<Rightarrow>
                       if xobj \<noteq> 0 then
                         (case mustDeref (vtype x) of
                            None \<Rightarrow> Inl TypeAssertFail
                          | Some t \<Rightarrow> Inr (xobj + offsetOf a1 t f, a1))
                       else Inr (0, a1))
              | KIndexAddr x \<Rightarrow>
                  (case objectNode_local cgn x a of
                     Inl e \<Rightarrow> Inl e
                   | Inr (xobj, a1) \<Rightarrow> if xobj \<noteq> 0 then Inr (xobj + 1, a1) else Inr (0, a1))
              | KSlice x \<Rightarrow> objectNode_local cgn x a
              | _ \<Rightarrow> Inr (0, a)) of
             Inl e \<Rightarrow> Inl e
           | Inr (obj, a1) \<Rightarrow>
               (case localobj a1 of
                  None \<Rightarrow> Inl NilMapWrite
                | Some m \<Rightarrow> Inr (obj, a1\<lparr>localobj := Some (m(v \<mapsto> obj))\<rparr>))))"
| "valueNode v a =
     (case cachedValue a v of
        Some n \<Rightarrow> Inr (n, a)
      | None \<Rightarrow>
          (case objectNode_global v (snd (addOneNode (vtype v) '''' None a)) of
             Inl e \<Rightarrow> Inl e
           | Inr (obj, a2) \<Rightarrow>
               (case (if obj \<noteq> 0 then addressOf (nextNode a) obj a2 else Inr a2) of
                  Inl e \<Rightarrow> Inl e
                | Inr a3 \<Rightarrow>
                    (case setValueNode v (nextNode a) None a3 of
                       Inl e \<Rightarrow> Inl e
                     | Inr a4 \<Rightarrow> Inr (nextNode a, a4)))))"
| "setValueNode v n cgn a =
     (case (if cgn \<noteq> None
            then (case localval a of
                    None \<Rightarrow> Inl NilMapWrite
                  | Some m \<Rightarrow> Inr (a\<lparr>localval := Some (m(v \<mapsto> n))\<rparr>))
            else Inr (a\<lparr>globalval := (globalval a)(v \<mapsto> n)\<rparr>)) of
        Inl e \<Rightarrow> Inl e
      | Inr a1 \<Rightarrow>
          (case cfg_queries a1 v of
             None \<Rightarrow> Inr a1
           | Some indirect \<Rightarrow>
               (case (if indirect
                      then (case genLoad cgn (fst (addNodes (vtype v) ''query.indirect'' a1)) v 0
                                   (sizeof a1 (vtype v)) (snd (addNodes (vtype v) ''query.indirect'' a1)) of
                              Inl e \<Rightarrow> Inl e
                            | Inr a3 \<Rightarrow> Inr (fst (addNodes (vtype v) ''query.indirect'' a1), a3))
                      else Inr (n, a1)) of
                  Inl e \<Rightarrow> Inl e
                | Inr (n', a4) \<Rightarrow>
                    Inr (a4\<lparr>res_queries := (res_queries a4)(v := res_queries a4 v @ [(cgn, n')])\<rparr>))))"
| "genLoad cgn result ptr offset sz a =
     (case (case cgn of None \<Rightarrow> objectNode_global ptr a | Some c \<Rightarrow> objectNode_local c ptr a) of
        Inl e \<Rightarrow> Inl e
      | Inr (obj, a1) \<Rightarrow>
          if obj \<noteq> 0 then copy result (add32 obj offset) sz a1
          else (case valueNode ptr a1 of
                  Inl e \<Rightarrow> Inl e
                | Inr (src, a2) \<Rightarrow> load result src offset sz a2))"
| "methodNodes [] a = Inr a"
| "methodNodes (f # fs) a =
     (case valueNode (funcValue f) a of
        Inl e \<Rightarrow> Inl e
      | Inr (n, a1) \<Rightarrow> methodNodes fs a1)"
  by pat_completeness auto

termination
proof (relation "inv_image (less_than <*lex*> less_than)
     (\<lambda>x. case x of
        Inl (Inl (cgn, v, a)) \<Rightarrow> (vrank v, 0::nat)
      | Inl (Inr (v, a)) \<Rightarrow> (vrank v, if cachedValue a v = None then 3 else 0)
      | Inr (Inl (v, n, cgn, a)) \<Rightarrow> (vrank v, if cgn = None then 2 else 6)
      | Inr (Inr (Inl (cgn, r, ptr, off, sz, a))) \<Rightarrow>
          (vrank ptr, if cgn = None then (if cachedValue a ptr = None then 4 else 1) else 5)
      | Inr (Inr (Inr (fs, a))) \<Rightarrow> (0, 10 + length fs))", goal_cases)
  case 1
  show ?case by auto
next
  case (2 cgn v a x11)
  then show ?case by (simp add: vrank_kind)
next
  case (3 cgn v a x11 b ba x y)
  then show ?case by (simp add: vrank_kind)
next
  case (4 cgn v a x121 x122)
  then show ?case by (simp add: vrank_kind)
next
  case (5 cgn v a x13)
  then show ?case by (simp add: vrank_kind)
next
  case (6 cgn v a x14)
  then show ?case by (simp add: vrank_kind)
next
  case (7 v a b x y ba)
  then show ?case by simp
next
  case (8 v n cgn a b x2)
  then show ?case
    by (cases cgn) (auto simp: addNodes_eq cachedValue_def split: option.splits)
next
  case (9 cgn result ptr offset sz a x2)
  then show ?case by simp
next
  case (10 cgn result ptr offset sz a b x y)
  show ?case
  proof (cases cgn)
    case None
    with 10 have "objectNode_global ptr a = Inr (x, y)" by simp
    from objectNode_global_frame[OF this] have "cachedValue y ptr = cachedValue a ptr"
      by (simp add: cachedValue_def cong: option.case_cong)
    with None show ?thesis by simp
  next
    case (Some c)
    then show ?thesis by simp
  qed
next
  case (11 f fs a)
  then show ?case by simp
next
  case (12 f fs a b x y)
  then show ?case by simp
qed

declare objectNode_local.simps [simp del] valueNode.simps [simp del] setValueNode.simps [simp del]
  genLoad.simps [simp del]

definition objectNode :: "cgnode option \<Rightarrow> ssa_value \<Rightarrow> analysis \<Rightarrow> error + (nat \<times> analysis)" where
  "objectNode cgn v a =
     (case cgn of None \<Rightarrow> objectNode_global v a | Some c \<Rightarrow> objectNode_local c v a)"

definition genStore :: "cgnode option \<Rightarrow> ssa_value \<Rightarrow> nat \<Rightarrow> nat \<Rightarrow> nat \<Rightarrow> analysis \<Rightarrow> error + analysis" where
  "genStore cgn ptr val offset sz a =
     (case objectNode cgn ptr a of
        Inl e \<Rightarrow> Inl e
      | Inr (obj, a1) \<Rightarrow>
          if obj \<noteq> 0 then copy (add32 obj offset) val sz a1
          else (case valueNode ptr a1 of
                  Inl e \<Rightarrow> Inl e
                | Inr (dst, a2) \<Rightarrow> store dst val offset sz a2))"

definition copyElems :: "cgnode option \<Rightarrow> gotype \<Rightarrow> ssa_value \<Rightarrow> ssa_value \<Rightarrow> analysis \<Rightarrow> error + analysis" where
  "copyElems cgn t dst src a =
     (let (tmp, a1) = addNodes t ''copy'' a;
          sz = sizeof a1 t
      in case genLoad cgn tmp src 1 sz a1 of
           Inl e \<Rightarrow> Inl e
         | Inr a2 \<Rightarrow> genStore cgn dst tmp 1 sz a2)"

subsection \<open>Constraint generation\<close>

text \<open>
  \<open>a.warnf\<close> is declared in analysis.go (not among the sources). Modelled from the spec:
  an unsoundness warning is "emitted to the warning list and logged; analysis continues"
  (7); the list holds (source position, message) pairs (6).
\<close>

definition warnf :: "nat \<Rightarrow> warning \<Rightarrow> analysis \<Rightarrow> analysis" where
  "warnf pos msg a = a\<lparr>res_warnings := res_warnings a @ [(pos, msg)]\<rparr>"

definition fnPkg :: "ssa_value \<Rightarrow> string option" where
  "fnPkg fn = (case vkind fn of KFunction syn pkg \<Rightarrow> pkg | _ \<Rightarrow> None)"

definition fnSynthetic :: "ssa_value \<Rightarrow> string" where
  "fnSynthetic fn = (case vkind fn of KFunction syn pkg \<Rightarrow> syn | _ \<Rightarrow> [])"

definition isString :: "basic_kind \<Rightarrow> bool" where
  "isString k \<longleftrightarrow> k = BString"

definition genConv :: "ssa_value \<Rightarrow> cgnode option \<Rightarrow> analysis \<Rightarrow> error + analysis" where
  "genConv conv cgn a =
     (case valueNode conv a of
        Inl e \<Rightarrow> Inl e
      | Inr (res, a1) \<Rightarrow>
          if res = 0 then Inr a1
          else
            (case vkind conv of
               KConvert x \<Rightarrow>
                 (case underlying (vtype x) of
                    Slice e \<Rightarrow> Inr a1
                  | Pointer e \<Rightarrow>
                      if vtype conv = tUnsafePtr then Inr a1
                      else Inl (Panic ''illegal *ssa.Convert'')
                  | Basic k \<Rightarrow>
                      (case underlying (vtype conv) of
                         Pointer e \<Rightarrow>
                           if Basic k = tUnsafePtr then
                             (case fnPkg (instr_parent (prog a1) conv) of
                                None \<Rightarrow> Inl NilDeref
                              | Some path \<Rightarrow>
                                  let a2 = (if path \<noteq> ''syscall''
                                            then warnf (instr_pos (prog a1) conv)
                                                   (UnsafePointerConversion (instr_parent (prog a1) conv) (vtype conv)) a1
                                            else a1)
                                  in (case mustDeref (vtype conv) of
                                        None \<Rightarrow> Inl TypeAssertFail
                                      | Some t \<Rightarrow>
                                          let (obj, a3) = addNodes t ''unsafe.Pointer conversion'' a2
                                          in (case endObject obj cgn (DataValue conv) a3 of
                                                Inl e \<Rightarrow> Inl e
                                              | Inr a4 \<Rightarrow> addressOf res obj a4)))
                           else Inl (Panic ''illegal *ssa.Convert'')
                       | Slice e \<Rightarrow>
                           if isString k then
                             (case sliceToArray (vtype conv) of
                                None \<Rightarrow> Inl TypeAssertFail
                              | Some t \<Rightarrow>
                                  let (obj, a3) = addNodes t ''convert'' a1
                                  in (case endObject obj cgn (DataValue conv) a3 of
                                        Inl e \<Rightarrow> Inl e
                                      | Inr a4 \<Rightarrow> addressOf res obj a4))
                           else Inl (Panic ''illegal *ssa.Convert'')
                       | Basic k' \<Rightarrow> Inr a1
                       | _ \<Rightarrow> Inl (Panic ''illegal *ssa.Convert''))
                  | _ \<Rightarrow> Inl (Panic ''illegal *ssa.Convert''))
             | _ \<Rightarrow> Inl NilDeref))"

definition callArgs :: "ssa_value \<Rightarrow> ssa_value list" where
  "callArgs instr = (case vkind instr of KCall cc \<Rightarrow> cargs cc | _ \<Rightarrow> [])"

definition genAppend :: "ssa_value \<Rightarrow> cgnode option \<Rightarrow> analysis \<Rightarrow> error + analysis" where
  "genAppend instr cgn a =
     (case callArgs instr of
        [] \<Rightarrow> Inl IndexOutOfRange
      | x # rest \<Rightarrow>
          (case valueNode instr a of
             Inl e \<Rightarrow> Inl e
           | Inr (zn, a1) \<Rightarrow>
               (case valueNode x a1 of
                  Inl e \<Rightarrow> Inl e
                | Inr (xn, a2) \<Rightarrow>
                    (case copy zn xn 1 a2 of
                       Inl e \<Rightarrow> Inl e
                     | Inr a3 \<Rightarrow>
                         (case rest of
                            [] \<Rightarrow> Inr a3
                          | y # ys \<Rightarrow>
                              (case sliceToArray (vtype x) of
                                 None \<Rightarrow> Inl TypeAssertFail
                               | Some tArray \<Rightarrow>
                                   (case endObject (nextNode a3) cgn (DataValue instr)
                                           (snd (addNodes tArray ''append'' a3)) of
                                      Inl e \<Rightarrow> Inl e
                                    | Inr a4 \<Rightarrow>
                                        (case copyElems cgn (arrayElem tArray) instr y a4 of
                                           Inl e \<Rightarrow> Inl e
                                         | Inr a5 \<Rightarrow>
                                             (case valueNode instr a5 of
                                                Inl e \<Rightarrow> Inl e
                                              | Inr (zn', a6) \<Rightarrow> addressOf zn' (nextNode a3) a6)))))))))"

text \<open>\<open>instr.Common()\<close> and \<open>instr.Value()\<close> of an \<open>ssa.CallInstruction\<close> (Call, Go, Defer).\<close>

definition common :: "instruction \<Rightarrow> call_common option" where
  "common instr =
     (case instr of
        IValue v \<Rightarrow> (case vkind v of KCall cc \<Rightarrow> Some cc | _ \<Rightarrow> None)
      | IGo cc \<Rightarrow> Some cc
      | IDefer cc \<Rightarrow> Some cc
      | IOther \<Rightarrow> None)"

definition instrValue :: "instruction \<Rightarrow> ssa_value option" where
  "instrValue instr =
     (case instr of
        IValue v \<Rightarrow> (case vkind v of KCall cc \<Rightarrow> Some v | _ \<Rightarrow> None)
      | _ \<Rightarrow> None)"

definition genBuiltinCall :: "instruction \<Rightarrow> cgnode option \<Rightarrow> analysis \<Rightarrow> error + analysis" where
  "genBuiltinCall instr cgn a =
     (case common instr of
        None \<Rightarrow> Inl NilDeref
      | Some call \<Rightarrow>
          (case vkind (cvalue call) of
             KBuiltin \<Rightarrow>
               if vname (cvalue call) = ''append'' then
                 (case instr of
                    IValue v \<Rightarrow> genAppend v cgn a
                  | _ \<Rightarrow> Inl TypeAssertFail)
               else if vname (cvalue call) = ''copy'' then
                 (case cargs call of
                    [] \<Rightarrow> Inl IndexOutOfRange
                  | a0 # rest \<Rightarrow>
                      (case underlying (vtype a0) of
                         Slice tElem \<Rightarrow>
                           (case rest of
                              [] \<Rightarrow> Inl IndexOutOfRange
                            | a1 # ys \<Rightarrow> copyElems cgn tElem a0 a1 a)
                       | _ \<Rightarrow> Inl TypeAssertFail))
               else if vname (cvalue call) = ''panic'' then
                 (case cargs call of
                    [] \<Rightarrow> Inl IndexOutOfRange
                  | a0 # ys \<Rightarrow>
                      (case valueNode a0 a of
                         Inl e \<Rightarrow> Inl e
                       | Inr (n, a1) \<Rightarrow> copy (panicNode a1) n 1 a1))
               else if vname (cvalue call) = ''recover'' then
                 (case instrValue instr of
                    None \<Rightarrow> Inr a
                  | Some v \<Rightarrow>
                      (case valueNode v a of
                         Inl e \<Rightarrow> Inl e
                       | Inr (n, a1) \<Rightarrow> copy n (panicNode a1) 1 a1))
               else if vname (cvalue call) = ''print'' then
                 (if cfg_print a then
                    (case cargs call of
                       [] \<Rightarrow> Inl IndexOutOfRange
                     | a0 # ys \<Rightarrow>
                         let probe = (case probes a instr of None \<Rightarrow> 0 | Some p \<Rightarrow> p);
                             t = vtype a0;
                             (probe', a1) =
                               (if probe = 0
                                then (let (p, b) = addNodes t ''print'' a
                                      in (p, b\<lparr>probes := (probes b)(instr \<mapsto> p),
                                              printed := printed b @ [(instr, p)]\<rparr>))
                                else (probe, a))
                         in (case valueNode a0 a1 of
                               Inl e \<Rightarrow> Inl e
                             | Inr (n, a2) \<Rightarrow> copy probe' n (sizeof a2 t) a2))
                  else Inr a)
               else Inr a
           | _ \<Rightarrow> Inl TypeAssertFail))"

subsection \<open>Static calls and the context-sensitivity policy\<close>

text \<open>
  \<open>a.findIntrinsic\<close> (intrinsics.go) is not among the sources: whether a function has an
  intrinsic is the table \<open>is_intrinsic\<close> of the program. \<open>StaticCallee\<close> and \<open>Signature\<close> of
  an \<open>ssa.CallCommon\<close> (package ssa) are not among the sources either; modelled from the
  spec's "static call": the callee is the function the call names, directly or through
  a closure, and the signature is the type of the called value.
\<close>

definition isCallToNonBuiltin :: "instruction \<Rightarrow> bool" where
  "isCallToNonBuiltin instr =
     (case common instr of
        None \<Rightarrow> False
      | Some call \<Rightarrow> vkind (cvalue call) \<noteq> KBuiltin)"

definition shouldUseContext :: "analysis \<Rightarrow> ssa_value \<Rightarrow> bool" where
  "shouldUseContext a fn =
     (if is_intrinsic (prog a) fn then True
      else
        (case fn_blocks (prog a) fn of
           None \<Rightarrow> False
         | Some blocks \<Rightarrow>
             (case blocks of
                [blk] \<Rightarrow>
                  if length blk > 10 then False
                  else if fnSynthetic fn \<noteq> [] \<and>
                          (case fnPkg fn of
                             None \<Rightarrow> True
                           | Some pkg \<Rightarrow> pkg_func (prog a) pkg ''init'' \<noteq> Some fn)
                  then True
                  else \<not> list_ex isCallToNonBuiltin blk
              | _ \<Rightarrow> False)))"

definition funcParams :: "nat \<Rightarrow> analysis \<Rightarrow> error + nat" where
  "funcParams n a =
     (if length (nodes a) \<le> n then Inl IndexOutOfRange
      else
        (case n_obj (nodes a ! n) of
           None \<Rightarrow> Inl (Panic ''funcParams: not a function object block'')
         | Some h \<Rightarrow>
             if otFunction \<notin> o_flags h then Inl (Panic ''funcParams: not a function object block'')
             else Inr (n + 1)))"

definition funcResults :: "nat \<Rightarrow> analysis \<Rightarrow> error + nat" where
  "funcResults n a =
     (if length (nodes a) \<le> n then Inl IndexOutOfRange
      else
        (case n_obj (nodes a ! n) of
           None \<Rightarrow> Inl (Panic ''funcResults: not a function object block'')
         | Some h \<Rightarrow>
             if otFunction \<notin> o_flags h then Inl (Panic ''funcResults: not a function object block'')
             else
               (case sigParts (n_typ (nodes a ! n)) of
                  None \<Rightarrow> Inl TypeAssertFail
                | Some (recv, params, results) \<Rightarrow>
                    Inr (n + 1 + sizeof a (Tuple params)
                         + (case recv of None \<Rightarrow> 0 | Some r \<Rightarrow> sizeof a r)))))"

definition staticCallee :: "call_common \<Rightarrow> ssa_value option" where
  "staticCallee call =
     (case vkind (cvalue call) of
        KFunction syn pkg \<Rightarrow> Some (cvalue call)
      | KMakeClosure fn bindings \<Rightarrow> Some fn
      | _ \<Rightarrow> None)"

definition callSignature :: "call_common \<Rightarrow> (gotype option \<times> gotype list \<times> gotype list) option" where
  "callSignature call = sigParts (underlying (vtype (cvalue call)))"

fun copyActuals :: "gotype list \<Rightarrow> ssa_value list \<Rightarrow> nat \<Rightarrow> analysis \<Rightarrow> error + analysis" where
  "copyActuals ps [] params a = Inr a"
| "copyActuals [] (arg # args) params a = Inl IndexOutOfRange"
| "copyActuals (p # ps) (arg # args) params a =
     (case valueNode arg a of
        Inl e \<Rightarrow> Inl e
      | Inr (n, a1) \<Rightarrow>
          (case copy params n (sizeof a p) a1 of
             Inl e \<Rightarrow> Inl e
           | Inr a2 \<Rightarrow> copyActuals ps args (params + sizeof a p) a2))"

definition genStaticCall ::
    "cgnode \<Rightarrow> nat \<Rightarrow> call_common \<Rightarrow> nat \<Rightarrow> analysis \<Rightarrow> error + analysis" where
  "genStaticCall caller site call result a =
     (case staticCallee call of
        None \<Rightarrow> Inl NilDeref
      | Some fn \<Rightarrow>
          (case (if shouldUseContext a fn
                 then makeFunctionObject fn (Some site) a
                 else objectNode None fn a) of
             Inl e \<Rightarrow> Inl e
           | Inr (obj, a1) \<Rightarrow>
               (case callSignature call of
                  None \<Rightarrow> Inl TypeAssertFail
                | Some (recv, ps, rs) \<Rightarrow>
                    let (targets, a2) = addOneNode (underlying (vtype (cvalue call))) ''call.targets'' None a1
                    in (case addressOf targets obj a2 of
                          Inl e \<Rightarrow> Inl e
                        | Inr a3 \<Rightarrow>
                            (case funcParams obj a3 of
                               Inl e \<Rightarrow> Inl e
                             | Inr params \<Rightarrow>
                                 (case (case recv of
                                          None \<Rightarrow> Inr (params, cargs call, a3)
                                        | Some r \<Rightarrow>
                                            (case cargs call of
                                               [] \<Rightarrow> Inl IndexOutOfRange
                                             | arg0 # args \<Rightarrow>
                                                 (case valueNode arg0 a3 of
                                                    Inl e \<Rightarrow> Inl e
                                                  | Inr (n, a4) \<Rightarrow>
                                                      (case copy params n (sizeof a3 r) a4 of
                                                         Inl e \<Rightarrow> Inl e
                                                       | Inr a5 \<Rightarrow> Inr (params + sizeof a3 r, args, a5))))) of
                                    Inl e \<Rightarrow> Inl e
                                  | Inr (params', args, a6) \<Rightarrow>
                                      (case copyActuals ps args params' a6 of
                                         Inl e \<Rightarrow> Inl e
                                       | Inr a7 \<Rightarrow>
                                           (case (if result \<noteq> 0
                                                  then (case funcResults obj a7 of
                                                          Inl e \<Rightarrow> Inl e
                                                        | Inr r \<Rightarrow> copy result r (sizeof a7 (Tuple rs)) a7)
                                                  else Inr a7) of
                                              Inl e \<Rightarrow> Inl e
                                            | Inr a8 \<Rightarrow>
                                                Inr (a8\<lparr>sites := (sites a8)[site := (sites a8 ! site)
                                                        \<lparr>cs_targets := targets\<rparr>]\<rparr>)))))))))"

subsection \<open>Reflection: tagged objects, \<open>makeRtype\<close>, \<open>TypeOf\<close> and \<open>Zero\<close>\<close>

definition taggedValue :: "nat \<Rightarrow> analysis \<Rightarrow> error + (gotype option \<times> nat \<times> bool)" where
  "taggedValue n a =
     (if length (nodes a) \<le> n then Inl IndexOutOfRange
      else
        (case n_obj (nodes a ! n) of
           None \<Rightarrow> Inl NilDeref
         | Some h \<Rightarrow>
             if otTagged \<in> o_flags h
             then Inr (Some (n_typ (nodes a ! n)), n + 1, otIndirect \<in> o_flags h)
             else Inr (None, 0, False)))"

definition rtypeTaggedValue :: "nat \<Rightarrow> analysis \<Rightarrow> error + gotype" where
  "rtypeTaggedValue obj a =
     (case taggedValue obj a of
        Inl e \<Rightarrow> Inl e
      | Inr (tDyn, t, indirect) \<Rightarrow>
          if tDyn \<noteq> reflectRtypePtr a then Inl (Panic ''not a *reflect.rtype-tagged value'')
          else if length (nodes a) \<le> t then Inl IndexOutOfRange
          else Inr (n_typ (nodes a ! t)))"

definition makeRtype :: "gotype \<Rightarrow> analysis \<Rightarrow> error + (nat \<times> analysis)" where
  "makeRtype T a =
     (case rtypes a T of
        Some v \<Rightarrow> Inr (v, a)
      | None \<Rightarrow>
          let obj = nextNode a;
              a1 = snd (addOneNode T ''reflect.rtype'' None a)
          in (case endObject obj None (DataType T) a1 of
                Inl e \<Rightarrow> Inl e
              | Inr a2 \<Rightarrow>
                  (case reflectRtypePtr a2 of
                     None \<Rightarrow> Inl NilDeref
                   | Some rt \<Rightarrow>
                       (case makeTagged rt None (DataType T) a2 of
                          Inl e \<Rightarrow> Inl e
                        | Inr (n, a3) \<Rightarrow>
                            if length (nodes a3) \<le> n + 1 then Inl IndexOutOfRange
                            else
                              (case addressOf (n + 1) obj
                                      (a3\<lparr>nodes := (nodes a3)[n + 1 := (nodes a3 ! (n + 1))\<lparr>n_typ := T\<rparr>]\<rparr>) of
                                 Inl e \<Rightarrow> Inl e
                               | Inr a4 \<Rightarrow> Inr (n, a4\<lparr>rtypes := (rtypes a4)(T \<mapsto> n)\<rparr>))))))"

text \<open>
  \<open>a.addLabel\<close> and \<open>a.addWork\<close> belong to the solver (solve.go, not among the sources).
  Modelled from the spec: a label is inserted into \<open>pts\<close> of a node, reporting whether the
  set changed, and "modified nodes are re-added to the worklist" (4.5).
\<close>

definition addLabel :: "nat \<Rightarrow> nat \<Rightarrow> analysis \<Rightarrow> error + (bool \<times> analysis)" where
  "addLabel ptr label a =
     (if length (nodes a) \<le> ptr then Inl IndexOutOfRange
      else Inr (label \<notin> n_pts (nodes a ! ptr),
                a\<lparr>nodes := (nodes a)[ptr := (nodes a ! ptr)\<lparr>n_pts := insert label (n_pts (nodes a ! ptr))\<rparr>]\<rparr>))"

definition addWork :: "nat \<Rightarrow> analysis \<Rightarrow> analysis" where
  "addWork n a = a\<lparr>work := insert n (work a)\<rparr>"

text \<open>
  The \<open>solve\<close> rule of a reflection constraint ranges over the labels of \<open>delta\<close>, a Go map:
  the order is any enumeration of the set, here a list. The loop returns the flag
  \<open>changed\<close> with the state.
\<close>

fun reflectTypeOf_loop :: "nat \<Rightarrow> nat list \<Rightarrow> bool \<Rightarrow> analysis \<Rightarrow> error + (bool \<times> analysis)" where
  "reflectTypeOf_loop result [] changed a = Inr (changed, a)"
| "reflectTypeOf_loop result (iObj # delta) changed a =
     (case taggedValue iObj a of
        Inl e \<Rightarrow> Inl e
      | Inr (tDyn, v, indirect) \<Rightarrow>
          (case tDyn of
             None \<Rightarrow> Inl (Panic ''not a tagged value'')
           | Some T \<Rightarrow>
               (case makeRtype T a of
                  Inl e \<Rightarrow> Inl e
                | Inr (n, a1) \<Rightarrow>
                    (case addLabel result n a1 of
                       Inl e \<Rightarrow> Inl e
                     | Inr (c, a2) \<Rightarrow> reflectTypeOf_loop result delta (changed \<or> c) a2))))"

definition reflectTypeOf_solve :: "cgnode \<Rightarrow> nat \<Rightarrow> nat \<Rightarrow> nat list \<Rightarrow> analysis \<Rightarrow> error + analysis" where
  "reflectTypeOf_solve cgn i result delta a =
     (case reflectTypeOf_loop result delta False a of
        Inl e \<Rightarrow> Inl e
      | Inr (changed, a1) \<Rightarrow> Inr (if changed then addWork result a1 else a1))"

fun reflectZero_loop :: "cgnode \<Rightarrow> nat \<Rightarrow> nat list \<Rightarrow> bool \<Rightarrow> analysis \<Rightarrow> error + (bool \<times> analysis)" where
  "reflectZero_loop cgn result [] changed a = Inr (changed, a)"
| "reflectZero_loop cgn result (typObj # delta) changed a =
     (case rtypeTaggedValue typObj a of
        Inl e \<Rightarrow> Inl e
      | Inr T \<Rightarrow>
          (case (if False \<and> reflectZeros a T \<noteq> None
                 then Inr (the (reflectZeros a T), a)
                 else (case makeTagged T (Some cgn) DataNil a of
                         Inl e \<Rightarrow> Inl e
                       | Inr (n, a1) \<Rightarrow> Inr (n, a1\<lparr>reflectZeros := (reflectZeros a1)(T \<mapsto> n)\<rparr>))) of
             Inl e \<Rightarrow> Inl e
           | Inr (n, a2) \<Rightarrow>
               (case addLabel result n a2 of
                  Inl e \<Rightarrow> Inl e
                | Inr (c, a3) \<Rightarrow> reflectZero_loop cgn result delta (changed \<or> c) a3)))"

definition reflectZero_solve :: "cgnode \<Rightarrow> nat \<Rightarrow> nat \<Rightarrow> nat list \<Rightarrow> analysis \<Rightarrow> error + analysis" where
  "reflectZero_solve cgn t result delta a =
     (case reflectZero_loop cgn result delta False a of
        Inl e \<Rightarrow> Inl e
      | Inr (changed, a1) \<Rightarrow> Inr (if changed then addWork result a1 else a1))"

definition ext_reflect_Zero :: "cgnode \<Rightarrow> analysis \<Rightarrow> error + analysis" where
  "ext_reflect_Zero cgn a =
     (case funcParams (cg_obj cgn) a of
        Inl e \<Rightarrow> Inl e
      | Inr p \<Rightarrow>
          (case funcResults (cg_obj cgn) a of
             Inl e \<Rightarrow> Inl e
           | Inr r \<Rightarrow> Inr (addConstraint (ReflectZeroC cgn p r) a)))"

definition ext_reflect_TypeOf :: "cgnode \<Rightarrow> analysis \<Rightarrow> error + analysis" where
  "ext_reflect_TypeOf cgn a =
     (case funcParams (cg_obj cgn) a of
        Inl e \<Rightarrow> Inl e
      | Inr p \<Rightarrow>
          (case funcResults (cg_obj cgn) a of
             Inl e \<Rightarrow> Inl e
           | Inr r \<Rightarrow> Inr (addConstraint (ReflectTypeOfC cgn p r) a)))"

text \<open>The solver's dispatch to the \<open>solve\<close> method of a reflection constraint.\<close>

definition solve_reflect :: "constraint \<Rightarrow> nat list \<Rightarrow> analysis \<Rightarrow> error + analysis" where
  "solve_reflect c delta a =
     (case c of
        ReflectTypeOfC cgn i result \<Rightarrow> reflectTypeOf_solve cgn i result delta a
      | ReflectZeroC cgn t result \<Rightarrow> reflectZero_solve cgn t result delta a
      | _ \<Rightarrow> Inr a)"

subsection \<open>The end of \<open>generate\<close>: the object of \<open>os.Args\<close>\<close>

text \<open>
  The last block of \<open>generate\<close>, run after the worklist \<open>genq\<close> has drained.
\<close>

definition generate_osArgs :: "analysis \<Rightarrow> error + analysis" where
  "generate_osArgs a =
     (case imported_package (prog a) ''os'' of
        None \<Rightarrow> Inr a
      | Some os \<Rightarrow>
          let (obj, a1) = addNodes (Array (Basic BString) 1) ''<command-line args>'' a
          in (case endObject obj None (DataString ''<command-line args>'') a1 of
                Inl e \<Rightarrow> Inl e
              | Inr a2 \<Rightarrow>
                  (case pkg_var (prog a2) os ''Args'' of
                     None \<Rightarrow> Inl NilDeref
                   | Some g \<Rightarrow>
                       (case objectNode None g a2 of
                          Inl e \<Rightarrow> Inl e
                        | Inr (gobj, a3) \<Rightarrow> addressOf gobj obj a3))))"

section \<open>Closed forms of the constraint-creating loops\<close>

lemma funpow_incr32: "n + i < 2 ^ 32 \<Longrightarrow> (incr32 ^^ i) n = n + i"
  by (induction i) (simp_all add: incr32_def)

lemma map_funpow_Suc:
  "map (\<lambda>i. f ((g ^^ i) x)) [0..<Suc n] = f x # map (\<lambda>i. f ((g ^^ i) (g x))) [0..<n]"
proof -
  have "map (\<lambda>i. f ((g ^^ i) x)) [0..<Suc n] = f x # map (\<lambda>i. f ((g ^^ Suc i) x)) [0..<n]"
    by (simp add: upt_conv_Cons map_Suc_upt[symmetric] del: upt_Suc funpow.simps)
  then show ?thesis by (simp add: funpow_swap1 del: upt_Suc)
qed

lemma copy_loop_eq:
  "copy_loop n dst src a =
     a\<lparr>constraints := constraints a @
          map (\<lambda>i. CopyC ((incr32 ^^ i) dst) ((incr32 ^^ i) src)) [0..<n]\<rparr>"
proof (induction n arbitrary: dst src a)
  case 0
  show ?case by simp
next
  case (Suc n)
  have "map (\<lambda>i. CopyC ((incr32 ^^ i) dst) ((incr32 ^^ i) src)) [0..<Suc n] =
        CopyC dst src # map (\<lambda>i. CopyC ((incr32 ^^ i) (incr32 dst)) ((incr32 ^^ i) (incr32 src))) [0..<n]"
    by (simp add: upt_conv_Cons map_Suc_upt[symmetric] funpow_swap1 del: upt_Suc funpow.simps)
       (simp add: funpow_swap1)
  with Suc show ?case by (simp add: addConstraint_def del: upt_Suc)
qed

lemma load_loop_eq:
  "load_loop n dst src offset a =
     a\<lparr>constraints := constraints a @
          map (\<lambda>i. LoadC ((incr32 ^^ i) offset) ((incr32 ^^ i) dst) src) [0..<n]\<rparr>"
proof (induction n arbitrary: dst offset a)
  case 0
  show ?case by simp
next
  case (Suc n)
  have "map (\<lambda>i. LoadC ((incr32 ^^ i) offset) ((incr32 ^^ i) dst) src) [0..<Suc n] =
        LoadC offset dst src #
        map (\<lambda>i. LoadC ((incr32 ^^ i) (incr32 offset)) ((incr32 ^^ i) (incr32 dst)) src) [0..<n]"
    by (simp add: upt_conv_Cons map_Suc_upt[symmetric] funpow_swap1 del: upt_Suc funpow.simps)
       (simp add: funpow_swap1)
  with Suc show ?case by (simp add: addConstraint_def del: upt_Suc)
qed

lemma store_loop_eq:
  "store_loop n dst src offset a =
     a\<lparr>constraints := constraints a @
          map (\<lambda>i. StoreC ((incr32 ^^ i) offset) dst ((incr32 ^^ i) src)) [0..<n]\<rparr>"
proof (induction n arbitrary: src offset a)
  case 0
  show ?case by simp
next
  case (Suc n)
  have "map (\<lambda>i. StoreC ((incr32 ^^ i) offset) dst ((incr32 ^^ i) src)) [0..<Suc n] =
        StoreC offset dst src #
        map (\<lambda>i. StoreC ((incr32 ^^ i) (incr32 offset)) dst ((incr32 ^^ i) (incr32 src))) [0..<n]"
    by (simp add: upt_conv_Cons map_Suc_upt[symmetric] funpow_swap1 del: upt_Suc funpow.simps)
       (simp add: funpow_swap1)
  with Suc show ?case by (simp add: addConstraint_def del: upt_Suc)
qed

text \<open>Without wrap-around the ids of the loops are consecutive.\<close>

lemma copy_loop_nowrap:
  assumes "dst + n \<le> 2 ^ 32" "src + n \<le> 2 ^ 32"
  shows "copy_loop n dst src a =
     a\<lparr>constraints := constraints a @ map (\<lambda>i. CopyC (dst + i) (src + i)) [0..<n]\<rparr>"
proof -
  have "map (\<lambda>i. CopyC ((incr32 ^^ i) dst) ((incr32 ^^ i) src)) [0..<n] =
        map (\<lambda>i. CopyC (dst + i) (src + i)) [0..<n]"
    using assms by (intro map_cong refl) (simp add: funpow_incr32)
  then show ?thesis by (simp add: copy_loop_eq)
qed

lemma load_loop_nowrap:
  assumes "dst + n \<le> 2 ^ 32" "offset + n \<le> 2 ^ 32"
  shows "load_loop n dst src offset a =
     a\<lparr>constraints := constraints a @ map (\<lambda>i. LoadC (offset + i) (dst + i) src) [0..<n]\<rparr>"
proof -
  have "map (\<lambda>i. LoadC ((incr32 ^^ i) offset) ((incr32 ^^ i) dst) src) [0..<n] =
        map (\<lambda>i. LoadC (offset + i) (dst + i) src) [0..<n]"
    using assms by (intro map_cong refl) (simp add: funpow_incr32)
  then show ?thesis by (simp add: load_loop_eq)
qed

lemma store_loop_nowrap:
  assumes "src + n \<le> 2 ^ 32" "offset + n \<le> 2 ^ 32"
  shows "store_loop n dst src offset a =
     a\<lparr>constraints := constraints a @ map (\<lambda>i. StoreC (offset + i) dst (src + i)) [0..<n]\<rparr>"
proof -
  have "map (\<lambda>i. StoreC ((incr32 ^^ i) offset) dst ((incr32 ^^ i) src)) [0..<n] =
        map (\<lambda>i. StoreC (offset + i) dst (src + i)) [0..<n]"
    using assms by (intro map_cong refl) (simp add: funpow_incr32)
  then show ?thesis by (simp add: store_loop_eq)
qed

section \<open>Concrete inputs for the witnesses\<close>

text \<open>
  A small program and analysis state: the flattener gives one node per type and one per
  component of a tuple; node 0 is the sentinel and node 1 the panic node; package
  \<open>os\<close> is imported.
\<close>

definition flat1 :: "gotype \<Rightarrow> fieldInfo list" where
  "flat1 t =
     (case t of
        Tuple ts \<Rightarrow> map (\<lambda>u. \<lparr>fi_typ = u, fi_path = []\<rparr>) ts
      | _ \<Rightarrow> [\<lparr>fi_typ = t, fi_path = []\<rparr>])"

definition ex_main :: ssa_value where
  "ex_main = Val ''main.main'' (Signature None [] []) (KFunction [] (Some ''main''))"

definition ex_osArgs :: ssa_value where
  "ex_osArgs = Val ''os.Args'' (Pointer (Slice (Basic BString))) KGlobal"

definition ex_prog :: program where
  "ex_prog =
     \<lparr>fn_blocks = (\<lambda>f. None), instr_parent = (\<lambda>v. ex_main), instr_pos = (\<lambda>v. 7),
      pkg_func = (\<lambda>p n. None),
      pkg_var = (\<lambda>p n. if p = ''os'' \<and> n = ''Args'' then Some ex_osArgs else None),
      imported_package = (\<lambda>p. if p = ''os'' then Some ''os'' else None),
      method_funcs = (\<lambda>t. []), is_intrinsic = (\<lambda>f. False)\<rparr>"

definition ex_rtypePtr :: gotype where
  "ex_rtypePtr = Pointer (Named ''reflect.rtype'' (Struct []))"

definition ex0 :: analysis where
  "ex0 =
     \<lparr>prog = ex_prog, flatten = flat1, offsetOf = (\<lambda>t i. i), cfg_queries = Map.empty,
      cfg_print = True, panicNode = 1,
      nodes = [\<lparr>n_typ = tInvalid, n_subelement = None, n_obj = None, n_pts = {}\<rparr>,
               \<lparr>n_typ = tEface, n_subelement = None, n_obj = None, n_pts = {}\<rparr>],
      constraints = [], cgnodes = [], genq = [], sites = [], probes = Map.empty,
      globalval = Map.empty, globalobj = Map.empty,
      localval = Some Map.empty, localobj = Some Map.empty, work = {},
      res_queries = (\<lambda>v. []), res_warnings = [], printed = [],
      rtypes = Map.empty, reflectZeros = Map.empty, reflectRtypePtr = Some ex_rtypePtr\<rparr>"

section \<open>C5: node 0 as an endpoint of an addr or a non-trivial copy\<close>

text \<open>
  C5 (amended). \<open>addressOf\<close> panics whenever its destination or its object is 0, and
  otherwise emits exactly one addr constraint, with both ends nonzero; \<open>copy\<close> with
  \<open>sizeof > 0\<close> and \<open>src \<noteq> dst\<close> panics whenever \<open>src\<close> or \<open>dst\<close> is 0; \<open>copy\<close> with
  \<open>src = dst\<close> or \<open>sizeof = 0\<close> emits nothing; and every copy constraint that \<open>copy\<close> emits
  has both ends nonzero as long as neither range of ids, \<open>[dst, dst + sizeof)\<close> and
  \<open>[src, src + sizeof)\<close>, runs past the largest node id: \<open>copy\<close> tests only the first id
  of each range, and the ids it steps to wrap around to 0.
\<close>

theorem zero_never_endpoint:
  "(n = 0 \<or> obj = 0 \<longrightarrow> (\<exists>m. addressOf n obj a = Inl (Panic m))) \<and>
   (\<forall>a'. addressOf n obj a = Inr a' \<longrightarrow>
      n \<noteq> 0 \<and> obj \<noteq> 0 \<and> a' = a\<lparr>constraints := constraints a @ [AddrC n obj]\<rparr>) \<and>
   (0 < sz \<and> src \<noteq> dst \<and> (src = 0 \<or> dst = 0) \<longrightarrow> (\<exists>m. copy dst src sz a = Inl (Panic m))) \<and>
   (src = dst \<or> sz = 0 \<longrightarrow> copy dst src sz a = Inr a) \<and>
   (\<forall>a'. copy dst src sz a = Inr a' \<longrightarrow>
      (\<exists>cs. a' = a\<lparr>constraints := constraints a @ cs\<rparr> \<and>
            (\<forall>c \<in> set cs. \<exists>d s. c = CopyC d s) \<and>
            (dst + sz \<le> 2 ^ 32 \<and> src + sz \<le> 2 ^ 32 \<longrightarrow>
               (\<forall>c \<in> set cs. \<exists>d s. c = CopyC d s \<and> d \<noteq> 0 \<and> s \<noteq> 0))))"
proof (intro conjI allI impI)
  show "\<exists>m. addressOf n obj a = Inl (Panic m)" if "n = 0 \<or> obj = 0"
    using that by (auto simp: addressOf_def)
  show "n \<noteq> 0" "obj \<noteq> 0" "a' = a\<lparr>constraints := constraints a @ [AddrC n obj]\<rparr>"
    if "addressOf n obj a = Inr a'" for a'
    using that by (auto simp: addressOf_def addConstraint_def split: if_splits)
  show "\<exists>m. copy dst src sz a = Inl (Panic m)" if "0 < sz \<and> src \<noteq> dst \<and> (src = 0 \<or> dst = 0)"
    using that by (auto simp: copy_def)
  show "copy dst src sz a = Inr a" if "src = dst \<or> sz = 0"
    using that by (auto simp: copy_def)
  show "\<exists>cs. a' = a\<lparr>constraints := constraints a @ cs\<rparr> \<and>
          (\<forall>c \<in> set cs. \<exists>d s. c = CopyC d s) \<and>
          (dst + sz \<le> 2 ^ 32 \<and> src + sz \<le> 2 ^ 32 \<longrightarrow>
             (\<forall>c \<in> set cs. \<exists>d s. c = CopyC d s \<and> d \<noteq> 0 \<and> s \<noteq> 0))"
    if "copy dst src sz a = Inr a'" for a'
  proof (cases "src = dst \<or> sz = 0")
    case True
    with that have "a' = a\<lparr>constraints := constraints a @ []\<rparr>" by (simp add: copy_def)
    then show ?thesis by (intro exI[of _ "[]"]) simp
  next
    case False
    with that have nz: "src \<noteq> 0" "dst \<noteq> 0"
      and a': "a' = a\<lparr>constraints := constraints a @
                 map (\<lambda>i. CopyC ((incr32 ^^ i) dst) ((incr32 ^^ i) src)) [0..<sz]\<rparr>"
      by (auto simp: copy_def copy_loop_eq split: if_splits)
    have "\<exists>d s. c = CopyC d s \<and> d \<noteq> 0 \<and> s \<noteq> 0"
      if "dst + sz \<le> 2 ^ 32 \<and> src + sz \<le> 2 ^ 32"
        and "c \<in> set (map (\<lambda>i. CopyC ((incr32 ^^ i) dst) ((incr32 ^^ i) src)) [0..<sz])" for c
      using that nz by (auto simp: funpow_incr32)
    then show ?thesis
      by (intro exI[of _ "map (\<lambda>i. CopyC ((incr32 ^^ i) dst) ((incr32 ^^ i) src)) [0..<sz]"])
         (use a' in auto)
  qed
qed

theorem zero_never_endpoint_witness:
  "(\<exists>m. addressOf 0 1 ex0 = Inl (Panic m)) \<and>
   (\<exists>m. copy 2 0 1 ex0 = Inl (Panic m)) \<and>
   copy 3 3 2 ex0 = Inr ex0 \<and>
   addressOf 2 3 ex0 = Inr (ex0\<lparr>constraints := [AddrC 2 3]\<rparr>) \<and>
   copy 4 2 2 ex0 = Inr (ex0\<lparr>constraints := [CopyC 4 2, CopyC 5 3]\<rparr>)"
proof -
  have c: "constraints ex0 = []" by (simp add: ex0_def)
  have 1: "addressOf 2 3 ex0 = Inr (addConstraint (AddrC 2 3) ex0)"
    by (simp add: addressOf_def)
  have 2: "copy 4 2 2 ex0 = Inr (copy_loop 2 4 2 ex0)"
    by (simp add: copy_def)
  have 3: "copy_loop 2 4 2 ex0 = ex0\<lparr>constraints := [CopyC 4 2, CopyC 5 3]\<rparr>"
    by (simp add: copy_loop_nowrap c upt_conv_Cons)
  from zero_never_endpoint[of 0 1 ex0 1 0 2] zero_never_endpoint[of 2 3 ex0 2 3 3]
    zero_never_endpoint[of 2 3 ex0 2 2 4]
  show ?thesis
    by (simp add: 1 2 3 c addConstraint_def)
qed

text \<open>
  The claim as worded fails: a copy of width 2 that starts at the largest node id is not
  trivial, both of its first ids are nonzero, and its second constraint has node 0 as
  its destination.
\<close>

theorem copy_wraps_to_zero:
  "copy 4294967295 1 2 ex0 = Inr (ex0\<lparr>constraints := [CopyC 4294967295 1, CopyC 0 2]\<rparr>)"
proof -
  have c: "constraints ex0 = []" by (simp add: ex0_def)
  have "incr32 4294967295 = 0" "incr32 1 = 2" by (simp_all add: incr32_def)
  then have "copy_loop 2 4294967295 1 ex0 = ex0\<lparr>constraints := [CopyC 4294967295 1, CopyC 0 2]\<rparr>"
    by (simp add: eval_nat_numeral(2) addConstraint_def c numeral_2_eq_2)
  then show ?thesis by (simp add: copy_def)
qed

section \<open>Closed forms of the object-creating operations\<close>

lemma installHeader_fresh:
  "installHeader (length ns) cgn d (ns @ m # ms) =
     ns @ m\<lparr>n_obj := Some \<lparr>o_size = Suc (length ms), o_cgn = cgn, o_data = d, o_flags = {}\<rparr>\<rparr> # ms"
  by (simp add: installHeader_def list_update_append nth_append)

lemma installHeader_empty:
  "installHeader (length ns) cgn d ns =
     ns @ [\<lparr>n_typ = tInvalid, n_subelement = None,
             n_obj = Some \<lparr>o_size = 0, o_cgn = cgn, o_data = d, o_flags = {}\<rparr>, n_pts = {}\<rparr>]"
  by (simp add: installHeader_def)

lemma endObject_addOneNode:
  "endObject (length (nodes a)) cgn d (snd (addOneNode T c sub a)) =
     Inr (a\<lparr>nodes := nodes a @ [\<lparr>n_typ = T, n_subelement = sub,
        n_obj = Some \<lparr>o_size = 1, o_cgn = cgn, o_data = d, o_flags = {}\<rparr>, n_pts = {}\<rparr>]\<rparr>)"
  by (simp add: endObject_eq addOneNode_eq installHeader_fresh[of "nodes a" _ _ _ "[]", simplified])

definition taggedNodes :: "analysis \<Rightarrow> gotype \<Rightarrow> cgnode option \<Rightarrow> objdata \<Rightarrow> node list" where
  "taggedNodes a t cgn d =
     \<lparr>n_typ = t, n_subelement = None,
      n_obj = Some \<lparr>o_size = Suc (length (flatten a t)), o_cgn = cgn, o_data = d, o_flags = {otTagged}\<rparr>,
      n_pts = {}\<rparr> # map fieldNode (flatten a t)"

lemma makeTagged_eq:
  "makeTagged t cgn d a =
     Inr (length (nodes a), a\<lparr>nodes := nodes a @ taggedNodes a t cgn d\<rparr>)"
  by (simp add: makeTagged_def addOneNode_eq addNodes_eq endObject_eq orFlags_eq Let_def
      installHeader_fresh[of "nodes a", simplified] taggedNodes_def list_update_append nth_append)

definition rtypeNodes :: "analysis \<Rightarrow> gotype \<Rightarrow> gotype \<Rightarrow> node list" where
  "rtypeNodes a T rt =
     [\<lparr>n_typ = T, n_subelement = None,
       n_obj = Some \<lparr>o_size = 1, o_cgn = None, o_data = DataType T, o_flags = {}\<rparr>, n_pts = {}\<rparr>,
      \<lparr>n_typ = rt, n_subelement = None,
       n_obj = Some \<lparr>o_size = Suc (length (flatten a rt)), o_cgn = None, o_data = DataType T,
                     o_flags = {otTagged}\<rparr>,
       n_pts = {}\<rparr>]
     @ (map fieldNode (flatten a rt))[0 := (fieldNode (hd (flatten a rt)))\<lparr>n_typ := T\<rparr>]"

lemma makeRtype_cached:
  "rtypes a T = Some n \<Longrightarrow> makeRtype T a = Inr (n, a)"
  by (simp add: makeRtype_def)

lemma makeRtype_first:
  assumes "rtypes a T = None" "reflectRtypePtr a = Some rt" "flatten a rt \<noteq> []" "nodes a \<noteq> []"
  shows "makeRtype T a =
     Inr (Suc (length (nodes a)),
          a\<lparr>nodes := nodes a @ rtypeNodes a T rt,
            constraints := constraints a @ [AddrC (Suc (Suc (length (nodes a)))) (length (nodes a))],
            rtypes := (rtypes a)(T \<mapsto> Suc (length (nodes a)))\<rparr>)"
proof -
  obtain fi fis where fl: "flatten a rt = fi # fis" using assms(3) by (cases "flatten a rt") auto
  note e = endObject_addOneNode[of a None "DataType T" T "''reflect.rtype''" None]
  show ?thesis
    using assms(1,2,4) fl
    by (simp add: makeRtype_def Let_def e makeTagged_eq taggedNodes_def addressOf_def
        addConstraint_def rtypeNodes_def nth_append list_update_append nextNode_def)
qed

lemma makeRtype_no_sentinel:
  assumes "rtypes a T = None" "reflectRtypePtr a = Some rt" "flatten a rt \<noteq> []" "nodes a = []"
  shows "makeRtype T a = Inl (Panic ''addressOf: zero obj'')"
proof -
  obtain fi fis where fl: "flatten a rt = fi # fis" using assms(3) by (cases "flatten a rt") auto
  note e = endObject_addOneNode[of a None "DataType T" T "''reflect.rtype''" None]
  have "makeRtype T a =
     (case makeTagged rt None (DataType T) (a\<lparr>nodes := nodes a @ [\<lparr>n_typ = T, n_subelement = None,
        n_obj = Some \<lparr>o_size = 1, o_cgn = None, o_data = DataType T, o_flags = {}\<rparr>, n_pts = {}\<rparr>]\<rparr>) of
          Inl e \<Rightarrow> Inl e
        | Inr (n, a3) \<Rightarrow>
            if length (nodes a3) \<le> n + 1 then Inl IndexOutOfRange
            else
              (case addressOf (n + 1) (length (nodes a))
                      (a3\<lparr>nodes := (nodes a3)[n + 1 := (nodes a3 ! (n + 1))\<lparr>n_typ := T\<rparr>]\<rparr>) of
                 Inl e \<Rightarrow> Inl e
               | Inr a4 \<Rightarrow> Inr (n, a4\<lparr>rtypes := (rtypes a4)(T \<mapsto> n)\<rparr>)))"
    using assms(1,2) by (simp add: makeRtype_def Let_def nextNode_def e)
  then show ?thesis
    using assms(4) fl
    by (simp add: makeTagged_eq taggedNodes_def addressOf_def)
qed

lemma makeRtype_no_payload:
  assumes "rtypes a T = None" "reflectRtypePtr a = Some rt" "flatten a rt = []"
  shows "makeRtype T a = Inl IndexOutOfRange"
proof -
  note e = endObject_addOneNode[of a None "DataType T" T "''reflect.rtype''" None]
  show ?thesis
    using assms
    by (simp add: makeRtype_def Let_def e makeTagged_eq taggedNodes_def nextNode_def)
qed

lemma makeRtype_Inr:
  assumes "makeRtype T a = Inr (n, a')"
  shows "(rtypes a T = Some n \<and> a' = a) \<or>
         (\<exists>rt. rtypes a T = None \<and> reflectRtypePtr a = Some rt \<and> flatten a rt \<noteq> [] \<and>
               nodes a \<noteq> [] \<and> n = Suc (length (nodes a)) \<and>
               a' = a\<lparr>nodes := nodes a @ rtypeNodes a T rt,
                     constraints := constraints a @ [AddrC (Suc (Suc (length (nodes a)))) (length (nodes a))],
                     rtypes := (rtypes a)(T \<mapsto> Suc (length (nodes a)))\<rparr>)"
proof (cases "rtypes a T")
  case (Some v)
  with assms show ?thesis by (simp add: makeRtype_def)
next
  case None
  show ?thesis
  proof (cases "reflectRtypePtr a")
    case N: None
    note e = endObject_addOneNode[of a None "DataType T" T "''reflect.rtype''" None]
    from assms None N show ?thesis by (simp add: makeRtype_def Let_def e nextNode_def)
  next
    case (Some rt)
    show ?thesis
    proof (cases "flatten a rt = []")
      case True
      from makeRtype_no_payload[OF None Some True] assms show ?thesis by simp
    next
      case False
      show ?thesis
      proof (cases "nodes a = []")
        case True
        from makeRtype_no_sentinel[OF None Some False True] assms show ?thesis by simp
      next
        case ne: False
        from makeRtype_first[OF None Some False ne] assms None Some False ne show ?thesis by auto
      qed
    qed
  qed
qed

section \<open>The object header lives on the first node of its block\<close>

text \<open>
  The invariant on the node table: a node that carries a header \<open>o\<close> at index \<open>h\<close> starts a
  block \<open>[h, h + size)\<close> that lies inside the table and holds no other header.
\<close>

definition headers_ok :: "node list \<Rightarrow> bool" where
  "headers_ok ns \<longleftrightarrow>
     (\<forall>h hdr. h < length ns \<and> n_obj (ns ! h) = Some hdr \<longrightarrow>
        h + o_size hdr \<le> length ns \<and>
        (\<forall>i. h < i \<and> i < h + o_size hdr \<longrightarrow> n_obj (ns ! i) = None))"

text \<open>
  What \<open>endObject\<close> asks of its argument ("obj is the start node of the object, from a
  prior call to nextNode"): no node from \<open>obj\<close> on carries a header, and no earlier block
  reaches beyond \<open>obj\<close>.
\<close>

definition block_start :: "node list \<Rightarrow> nat \<Rightarrow> bool" where
  "block_start ns obj \<longleftrightarrow>
     obj \<le> length ns \<and>
     (\<forall>i. obj \<le> i \<and> i < length ns \<longrightarrow> n_obj (ns ! i) = None) \<and>
     (\<forall>h hdr. h < obj \<and> n_obj (ns ! h) = Some hdr \<longrightarrow> h + o_size hdr \<le> obj)"

lemma headers_ok_append:
  assumes "headers_ok ns" "\<forall>n \<in> set ms. n_obj n = None"
  shows "headers_ok (ns @ ms)"
  unfolding headers_ok_def
proof (intro allI impI, elim conjE)
  fix h hdr
  assume h: "h < length (ns @ ms)" and o: "n_obj ((ns @ ms) ! h) = Some hdr"
  have hl: "h < length ns"
  proof (rule ccontr)
    assume "\<not> h < length ns"
    with h have "(ns @ ms) ! h \<in> set ms" by (simp add: nth_append)
    with assms(2) o show False by auto
  qed
  with o have o': "n_obj (ns ! h) = Some hdr" by (simp add: nth_append)
  from assms(1) hl o' have 1: "h + o_size hdr \<le> length ns"
    and 2: "\<forall>i. h < i \<and> i < h + o_size hdr \<longrightarrow> n_obj (ns ! i) = None"
    unfolding headers_ok_def by blast+
  show "h + o_size hdr \<le> length (ns @ ms) \<and>
        (\<forall>i. h < i \<and> i < h + o_size hdr \<longrightarrow> n_obj ((ns @ ms) ! i) = None)"
    using 1 2 by (auto simp: nth_append)
qed

lemma block_start_fresh:
  assumes "headers_ok ns" "\<forall>n \<in> set ms. n_obj n = None"
  shows "block_start (ns @ ms) (length ns)"
  unfolding block_start_def
proof (intro conjI allI impI)
  show "length ns \<le> length (ns @ ms)" by simp
  show "n_obj ((ns @ ms) ! i) = None" if "length ns \<le> i \<and> i < length (ns @ ms)" for i
  proof -
    from that have "(ns @ ms) ! i = ms ! (i - length ns)" "i - length ns < length ms"
      by (auto simp: nth_append)
    then have "(ns @ ms) ! i \<in> set ms" by simp
    with assms(2) show ?thesis by auto
  qed
  show "h + o_size hdr \<le> length ns" if "h < length ns \<and> n_obj ((ns @ ms) ! h) = Some hdr" for h hdr
    using that assms(1) unfolding headers_ok_def by (auto simp: nth_append)
qed

lemma headers_ok_installHeader:
  assumes ok: "headers_ok ns" and bs: "block_start ns obj"
  shows "headers_ok (installHeader obj cgn d ns)"
proof (cases "obj = length ns")
  case True
  have "headers_ok (ns @ [\<lparr>n_typ = tInvalid, n_subelement = None,
             n_obj = Some \<lparr>o_size = 0, o_cgn = cgn, o_data = d, o_flags = {}\<rparr>, n_pts = {}\<rparr>])"
    unfolding headers_ok_def
  proof (intro allI impI, elim conjE)
    fix h hdr
    assume h: "h < length (ns @ [\<lparr>n_typ = tInvalid, n_subelement = None,
             n_obj = Some \<lparr>o_size = 0, o_cgn = cgn, o_data = d, o_flags = {}\<rparr>, n_pts = {}\<rparr>])"
      and o: "n_obj ((ns @ [\<lparr>n_typ = tInvalid, n_subelement = None,
             n_obj = Some \<lparr>o_size = 0, o_cgn = cgn, o_data = d, o_flags = {}\<rparr>, n_pts = {}\<rparr>]) ! h) = Some hdr"
    show "h + o_size hdr \<le> length (ns @ [\<lparr>n_typ = tInvalid, n_subelement = None,
             n_obj = Some \<lparr>o_size = 0, o_cgn = cgn, o_data = d, o_flags = {}\<rparr>, n_pts = {}\<rparr>]) \<and>
        (\<forall>i. h < i \<and> i < h + o_size hdr \<longrightarrow> n_obj ((ns @ [\<lparr>n_typ = tInvalid, n_subelement = None,
             n_obj = Some \<lparr>o_size = 0, o_cgn = cgn, o_data = d, o_flags = {}\<rparr>, n_pts = {}\<rparr>]) ! i) = None)"
    proof (cases "h < length ns")
      case True
      with o have "n_obj (ns ! h) = Some hdr" by (simp add: nth_append)
      with ok True have "h + o_size hdr \<le> length ns"
        and "\<forall>i. h < i \<and> i < h + o_size hdr \<longrightarrow> n_obj (ns ! i) = None"
        unfolding headers_ok_def by blast+
      then show ?thesis by (auto simp: nth_append)
    next
      case False
      with h have "h = length ns" by simp
      with o have "o_size hdr = 0" by auto
      with \<open>h = length ns\<close> show ?thesis by auto
    qed
  qed
  with True show ?thesis by (simp add: installHeader_def)
next
  case False
  with bs have lt: "obj < length ns" by (simp add: block_start_def)
  let ?new = "\<lparr>o_size = length ns - obj, o_cgn = cgn, o_data = d, o_flags = {}\<rparr>"
  let ?ns' = "ns[obj := (ns ! obj)\<lparr>n_obj := Some ?new\<rparr>]"
  have "headers_ok ?ns'"
    unfolding headers_ok_def
  proof (intro allI impI, elim conjE)
    fix h hdr
    assume h: "h < length ?ns'" and o: "n_obj (?ns' ! h) = Some hdr"
    show "h + o_size hdr \<le> length ?ns' \<and>
          (\<forall>i. h < i \<and> i < h + o_size hdr \<longrightarrow> n_obj (?ns' ! i) = None)"
    proof (cases "h = obj")
      case True
      with o lt have "hdr = ?new" by simp
      with True lt bs show ?thesis by (auto simp: block_start_def nth_list_update)
    next
      case False
      with o h have o': "n_obj (ns ! h) = Some hdr" by (simp add: nth_list_update)
      from h have hl: "h < length ns" by simp
      from bs o' hl have hobj: "h < obj"
        unfolding block_start_def by (metis not_le_imp_less option.distinct(1))
      with bs o' have le: "h + o_size hdr \<le> obj" unfolding block_start_def by blast
      from ok hl o' have "\<forall>i. h < i \<and> i < h + o_size hdr \<longrightarrow> n_obj (ns ! i) = None"
        unfolding headers_ok_def by blast
      with le lt show ?thesis by (auto simp: nth_list_update)
    qed
  qed
  with False show ?thesis by (simp add: installHeader_def)
qed

lemma headers_ok_update:
  assumes "headers_ok ns"
    and none: "n_obj x = None \<longleftrightarrow> n_obj (ns ! k) = None"
    and size: "\<And>hdr. n_obj x = Some hdr \<Longrightarrow> \<exists>hdr'. n_obj (ns ! k) = Some hdr' \<and> o_size hdr' = o_size hdr"
  shows "headers_ok (ns[k := x])"
proof -
  have same: "n_obj (ns[k := x] ! i) = None \<longleftrightarrow> n_obj (ns ! i) = None" if "i < length ns" for i
    using that none by (cases "i = k") (auto simp: nth_list_update)
  have sz: "\<exists>hdr'. n_obj (ns ! h) = Some hdr' \<and> o_size hdr' = o_size hdr"
    if "h < length ns" "n_obj (ns[k := x] ! h) = Some hdr" for h hdr
    using that size by (cases "h = k") (auto simp: nth_list_update)
  show ?thesis
    unfolding headers_ok_def
  proof (intro allI impI, elim conjE)
    fix h hdr
    assume h: "h < length (ns[k := x])" and o: "n_obj (ns[k := x] ! h) = Some hdr"
    from h have hl: "h < length ns" by simp
    from sz[OF hl o] obtain hdr' where o': "n_obj (ns ! h) = Some hdr'"
      and eq: "o_size hdr' = o_size hdr" by blast
    from assms(1) hl o' have 1: "h + o_size hdr' \<le> length ns"
      and 2: "\<forall>i. h < i \<and> i < h + o_size hdr' \<longrightarrow> n_obj (ns ! i) = None"
      unfolding headers_ok_def by blast+
    show "h + o_size hdr \<le> length (ns[k := x]) \<and>
          (\<forall>i. h < i \<and> i < h + o_size hdr \<longrightarrow> n_obj (ns[k := x] ! i) = None)"
    proof (intro conjI allI impI)
      show "h + o_size hdr \<le> length (ns[k := x])" using 1 eq by simp
      fix i assume i: "h < i \<and> i < h + o_size hdr"
      with 1 eq have "i < length ns" by simp
      with same[OF this] 2 i eq show "n_obj (ns[k := x] ! i) = None" by simp
    qed
  qed
qed

lemma headers_ok_flags:
  assumes "headers_ok ns"
  shows "headers_ok (ns[k := (ns ! k)\<lparr>n_obj := map_option (\<lambda>h. h\<lparr>o_flags := insert f (o_flags h)\<rparr>) (n_obj (ns ! k))\<rparr>])"
  by (rule headers_ok_update[OF assms]) auto

lemma headers_ok_typ:
  assumes "headers_ok ns"
  shows "headers_ok (ns[k := (ns ! k)\<lparr>n_typ := T\<rparr>])"
  by (rule headers_ok_update[OF assms]) auto

lemma headers_ok_newObject:
  assumes "headers_ok ns" "\<forall>n \<in> set ms. n_obj n = None"
  shows "headers_ok (installHeader (length ns) cgn d (ns @ ms))"
  by (rule headers_ok_installHeader[OF headers_ok_append[OF assms] block_start_fresh[OF assms]])

lemma fieldNode_no_header [simp]: "n_obj (fieldNode fi) = None"
  by (simp add: fieldNode_def)

lemma headers_ok_addOneNode:
  "headers_ok (nodes a) \<Longrightarrow> headers_ok (nodes (snd (addOneNode t c sub a)))"
  by (simp add: addOneNode_eq headers_ok_append)

lemma headers_ok_addNodes:
  "headers_ok (nodes a) \<Longrightarrow> headers_ok (nodes (snd (addNodes t c a)))"
  by (simp add: addNodes_eq headers_ok_append)

lemma headers_ok_endObject:
  assumes "headers_ok (nodes a)" "block_start (nodes a) obj" "endObject obj cgn d a = Inr a'"
  shows "headers_ok (nodes a')"
  using assms by (auto simp: endObject_eq headers_ok_installHeader split: if_splits)

lemma endObject_touches_obj_only:
  assumes "endObject obj cgn d a = Inr a'" "i < length (nodes a')" "i \<noteq> obj"
  shows "i < length (nodes a) \<and> nodes a' ! i = nodes a ! i"
  using assms
  by (auto simp: endObject_eq installHeader_def nth_append split: if_splits)

lemma headers_ok_makeTagged:
  assumes "headers_ok (nodes a)" "makeTagged t cgn d a = Inr (n, a')"
  shows "headers_ok (nodes a')"
proof -
  have "headers_ok (installHeader (length (nodes a)) cgn d
          (nodes a @ \<lparr>n_typ = t, n_subelement = None, n_obj = None, n_pts = {}\<rparr>
              # map fieldNode (flatten a t)))"
    by (rule headers_ok_newObject[OF assms(1)]) auto
  from headers_ok_flags[OF this, of "length (nodes a)" otTagged] assms(2) show ?thesis
    by (auto simp: makeTagged_eq taggedNodes_def installHeader_fresh list_update_append nth_append)
qed

lemma headers_ok_makeFunctionObject:
  assumes "headers_ok (nodes a)" "makeFunctionObject fn cs a = Inr (n, a')"
  shows "headers_ok (nodes a')"
proof -
  from assms(2) obtain recv params results where
    sp: "sigParts (vtype fn) = Some (recv, params, results)"
    and a': "nodes a' = funcObjectNodes a fn cs"
    by (cases "sigParts (vtype fn)") (auto simp: makeFunctionObject_eq)
  have "headers_ok (installHeader (length (nodes a))
          (Some \<lparr>cg_fn = fn, cg_obj = length (nodes a), cg_callersite = cs\<rparr>) (DataValue fn)
          (nodes a @ ([\<lparr>n_typ = vtype fn, n_subelement = None, n_obj = None, n_pts = {}\<rparr>]
             @ (case recv of None \<Rightarrow> [] | Some r \<Rightarrow> map fieldNode (flatten a r))
             @ map fieldNode (flatten a (Tuple params))
             @ map fieldNode (flatten a (Tuple results)))))"
    by (rule headers_ok_newObject[OF assms(1)]) (auto split: option.splits)
  from headers_ok_flags[OF this] a' sp show ?thesis
    by (simp add: funcObjectNodes_def Let_def)
qed

lemma headers_ok_makeRtype:
  assumes ok: "headers_ok (nodes a)" and mk: "makeRtype T a = Inr (n, a')"
  shows "headers_ok (nodes a')"
proof -
  from makeRtype_Inr[OF mk] show ?thesis
  proof (elim disjE exE conjE)
    assume "a' = a"
    with ok show ?thesis by simp
  next
    fix rt
    assume fl: "flatten a rt \<noteq> []"
      and a': "a' = a\<lparr>nodes := nodes a @ rtypeNodes a T rt,
                     constraints := constraints a @ [AddrC (Suc (Suc (length (nodes a)))) (length (nodes a))],
                     rtypes := (rtypes a)(T \<mapsto> Suc (length (nodes a)))\<rparr>"
    let ?a2 = "a\<lparr>nodes := nodes a @ [\<lparr>n_typ = T, n_subelement = None,
        n_obj = Some \<lparr>o_size = 1, o_cgn = None, o_data = DataType T, o_flags = {}\<rparr>, n_pts = {}\<rparr>]\<rparr>"
    have ok2: "headers_ok (nodes ?a2)"
      using headers_ok_newObject[OF ok, of "[\<lparr>n_typ = T, n_subelement = None, n_obj = None, n_pts = {}\<rparr>]"
          None "DataType T"]
      by (simp add: installHeader_fresh[of "nodes a" _ _ _ "[]", simplified])
    have mt: "makeTagged rt None (DataType T) ?a2 =
        Inr (length (nodes ?a2), ?a2\<lparr>nodes := nodes ?a2 @ taggedNodes ?a2 rt None (DataType T)\<rparr>)"
      by (rule makeTagged_eq)
    from headers_ok_makeTagged[OF ok2 mt]
    have ok3: "headers_ok (nodes ?a2 @ taggedNodes ?a2 rt None (DataType T))" by simp
    obtain fi fis where f: "flatten a rt = fi # fis" using fl by (cases "flatten a rt") auto
    from headers_ok_typ[OF ok3, of "Suc (Suc (length (nodes a)))" T] a' f show ?thesis
      by (simp add: rtypeNodes_def taggedNodes_def nth_append list_update_append)
  qed
qed

lemma objectNode_global_shape:
  assumes "objectNode_global v a = Inr (obj, a')"
  shows "(globalobj a v = Some obj \<and> a' = a) \<or>
     (globalobj a v = None \<and>
       ((obj = 0 \<and> a' = a\<lparr>globalobj := (globalobj a)(v \<mapsto> obj)\<rparr>) \<or>
        (\<exists>t. obj = length (nodes a) \<and>
            (vkind v = KGlobal \<and> mustDeref (vtype v) = Some t \<or>
             (\<exists>e. vkind v = KConst False \<and> underlying (vtype v) = Slice e \<and> t = Array e 1)) \<and>
            a' = a\<lparr>nodes := installHeader (length (nodes a)) None (DataValue v)
                           (nodes a @ map fieldNode (flatten a t)),
                   globalobj := (globalobj a)(v \<mapsto> obj)\<rparr>) \<or>
        (\<exists>syn pkg. vkind v = KFunction syn pkg \<and> obj = length (nodes a) \<and>
            sigParts (vtype v) \<noteq> None \<and>
            a' = a\<lparr>cgnodes := cgnodes a @ [\<lparr>cg_fn = v, cg_obj = length (nodes a), cg_callersite = None\<rparr>],
                   nodes := funcObjectNodes a v None,
                   genq := genq a @ [\<lparr>cg_fn = v, cg_obj = length (nodes a), cg_callersite = None\<rparr>],
                   globalobj := (globalobj a)(v \<mapsto> obj)\<rparr>)))"
proof (cases "globalobj a v")
  case (Some n)
  with assms show ?thesis by (simp add: objectNode_global_def)
next
  case None
  show ?thesis
  proof (cases "vkind v")
    case KGlobal
    with None assms show ?thesis
      by (cases "mustDeref (vtype v)")
         (auto simp: objectNode_global_def endObject_addNodes nextNode_def)
  next
    case (KFunction syn pkg)
    with None assms show ?thesis
      by (cases "sigParts (vtype v)") (auto simp: objectNode_global_def makeFunctionObject_eq)
  next
    case (KConst isNil)
    show ?thesis
    proof (cases "\<exists>e. underlying (vtype v) = Slice e \<and> \<not> isNil")
      case True
      then obtain e where "underlying (vtype v) = Slice e" "\<not> isNil" by blast
      with None assms KConst show ?thesis
        by (auto simp: objectNode_global_def endObject_addNodes nextNode_def)
    next
      case False
      with None assms KConst have "obj = 0 \<and> a' = a\<lparr>globalobj := (globalobj a)(v \<mapsto> obj)\<rparr>"
        by (auto simp: objectNode_global_def split: gotype.splits)
      with None show ?thesis by simp
    qed
  qed (use None assms in \<open>simp_all add: objectNode_global_def\<close>)
qed

lemma headers_ok_objectNode_global:
  assumes ok: "headers_ok (nodes a)" and on: "objectNode_global v a = Inr (n, a')"
  shows "headers_ok (nodes a')"
proof -
  have alloc: "headers_ok (installHeader (length (nodes a)) None (DataValue v)
              (nodes a @ map fieldNode (flatten a t)))" for t
    by (rule headers_ok_newObject[OF ok]) auto
  have fn: "headers_ok (funcObjectNodes a v None)" if "sigParts (vtype v) \<noteq> None"
  proof -
    from that have "makeFunctionObject v None a =
      Inr (length (nodes a),
               a\<lparr>cgnodes := cgnodes a @ [\<lparr>cg_fn = v, cg_obj = length (nodes a), cg_callersite = None\<rparr>],
                 nodes := funcObjectNodes a v None,
                 genq := genq a @ [\<lparr>cg_fn = v, cg_obj = length (nodes a), cg_callersite = None\<rparr>]\<rparr>)"
      by (simp add: makeFunctionObject_eq)
    from headers_ok_makeFunctionObject[OF ok this] show ?thesis by simp
  qed
  from objectNode_global_shape[OF on] show ?thesis
    using ok alloc fn by (elim disjE conjE exE) simp_all
qed

lemma ex0_nodes:
  "nodes ex0 = [\<lparr>n_typ = tInvalid, n_subelement = None, n_obj = None, n_pts = {}\<rparr>,
                \<lparr>n_typ = tEface, n_subelement = None, n_obj = None, n_pts = {}\<rparr>]"
  by (simp add: ex0_def)

lemma headers_ok_ex0: "headers_ok (nodes ex0)"
  by (simp add: headers_ok_def ex0_nodes nth_Cons')

section \<open>C7: \<open>makeRtype\<close> is memoized per type\<close>

text \<open>The dynamic type of a label: the tag of the tagged object that starts at it.\<close>

definition dynType :: "analysis \<Rightarrow> nat \<Rightarrow> gotype option" where
  "dynType a l = (case taggedValue l a of Inr (Some T, v, indirect) \<Rightarrow> Some T | _ \<Rightarrow> None)"

lemma makeRtype_rtypes_mono:
  assumes "makeRtype T a = Inr (n, a')" "rtypes a T' = Some m"
  shows "rtypes a' T' = Some m"
  using makeRtype_Inr[OF assms(1)] assms(2) by auto

lemma makeRtype_result_cached:
  assumes "makeRtype T a = Inr (n, a')"
  shows "rtypes a' T = Some n"
  using makeRtype_Inr[OF assms] by auto

lemma makeRtype_nodes:
  assumes "makeRtype T a = Inr (n, a')"
  shows "\<exists>ms. nodes a' = nodes a @ ms"
  using makeRtype_Inr[OF assms] by auto

lemma addLabel_Inr:
  assumes "addLabel ptr label a = Inr (c, a')"
  shows "ptr < length (nodes a) \<and>
         a' = a\<lparr>nodes := (nodes a)[ptr := (nodes a ! ptr)\<lparr>n_pts := insert label (n_pts (nodes a ! ptr))\<rparr>]\<rparr>"
  using assms by (auto simp: addLabel_def split: if_splits)

text \<open>Two node tables agree on the types and headers of the nodes of the first.\<close>

definition same_tags :: "node list \<Rightarrow> node list \<Rightarrow> bool" where
  "same_tags ns ns' \<longleftrightarrow>
     length ns \<le> length ns' \<and>
     (\<forall>i < length ns. n_typ (ns' ! i) = n_typ (ns ! i) \<and> n_obj (ns' ! i) = n_obj (ns ! i))"

lemma same_tags_refl [simp]: "same_tags ns ns"
  by (simp add: same_tags_def)

lemma same_tags_trans: "same_tags ns ns' \<Longrightarrow> same_tags ns' ns'' \<Longrightarrow> same_tags ns ns''"
  by (auto simp: same_tags_def)

lemma same_tags_append [simp]: "same_tags ns (ns @ ms)"
  by (simp add: same_tags_def nth_append)

lemma same_tags_pts [simp]: "same_tags ns (ns[k := (ns ! k)\<lparr>n_pts := p\<rparr>])"
proof -
  have "n_typ (ns[k := (ns ! k)\<lparr>n_pts := p\<rparr>] ! i) = n_typ (ns ! i) \<and>
        n_obj (ns[k := (ns ! k)\<lparr>n_pts := p\<rparr>] ! i) = n_obj (ns ! i)" if "i < length ns" for i
    using that by (cases "i = k") simp_all
  then show ?thesis by (simp add: same_tags_def)
qed

lemma dynType_same_tags:
  assumes "same_tags (nodes a) (nodes a')" "l < length (nodes a)"
  shows "dynType a' l = dynType a l"
proof -
  from assms have "taggedValue l a' = taggedValue l a"
    by (auto simp: taggedValue_def same_tags_def split: option.splits)
  then show ?thesis by (simp add: dynType_def)
qed

lemma reflectTypeOf_loop_inv:
  assumes "reflectTypeOf_loop result delta ch a = Inr (ch', a')"
    and "result < length (nodes a)" and "\<forall>l \<in> set delta. l < length (nodes a)"
  shows "same_tags (nodes a) (nodes a') \<and>
         (\<forall>T m. rtypes a T = Some m \<longrightarrow> rtypes a' T = Some m) \<and>
         (\<forall>l \<in> set delta. \<exists>T n. dynType a l = Some T \<and> rtypes a' T = Some n) \<and>
         n_pts (nodes a' ! result) =
           n_pts (nodes a ! result) \<union>
           {n. \<exists>l \<in> set delta. \<exists>T. dynType a l = Some T \<and> rtypes a' T = Some n}"
  using assms
proof (induction delta arbitrary: ch a)
  case Nil
  then show ?case by simp
next
  case (Cons l ds)
  from Cons.prems(1) obtain T v ind n a1 c a2 where
    tv: "taggedValue l a = Inr (Some T, v, ind)"
    and mk: "makeRtype T a = Inr (n, a1)"
    and al: "addLabel result n a1 = Inr (c, a2)"
    and rest: "reflectTypeOf_loop result ds (ch \<or> c) a2 = Inr (ch', a')"
    by (auto split: sum.splits option.splits)
  from tv have dt: "dynType a l = Some T" by (simp add: dynType_def)
  from makeRtype_nodes[OF mk] obtain ms where n1: "nodes a1 = nodes a @ ms" by blast
  from addLabel_Inr[OF al] have r1: "result < length (nodes a1)"
    and a2: "a2 = a1\<lparr>nodes := (nodes a1)[result := (nodes a1 ! result)
                  \<lparr>n_pts := insert n (n_pts (nodes a1 ! result))\<rparr>]\<rparr>"
    by simp_all
  have "same_tags (nodes a1) (nodes a2)"
    unfolding a2 by simp
  with same_tags_append[of "nodes a" ms] have st2: "same_tags (nodes a) (nodes a2)"
    unfolding n1[symmetric] by (rule same_tags_trans)
  have len2: "length (nodes a) \<le> length (nodes a2)" using st2 by (simp add: same_tags_def)
  have rt2: "rtypes a2 = rtypes a1" by (simp add: a2)
  have pts2: "n_pts (nodes a2 ! result) = insert n (n_pts (nodes a ! result))"
    using Cons.prems(2) by (simp add: a2 n1 nth_append)
  have IH: "same_tags (nodes a2) (nodes a') \<and>
         (\<forall>T m. rtypes a2 T = Some m \<longrightarrow> rtypes a' T = Some m) \<and>
         (\<forall>l \<in> set ds. \<exists>T n. dynType a2 l = Some T \<and> rtypes a' T = Some n) \<and>
         n_pts (nodes a' ! result) =
           n_pts (nodes a2 ! result) \<union>
           {n. \<exists>l \<in> set ds. \<exists>T. dynType a2 l = Some T \<and> rtypes a' T = Some n}"
  proof (rule Cons.IH[OF rest])
    show "result < length (nodes a2)" using Cons.prems(2) len2 by simp
    show "\<forall>l \<in> set ds. l < length (nodes a2)" using Cons.prems(3) len2 by auto
  qed
  have dt2: "dynType a2 k = dynType a k" if "k \<in> set ds" for k
    using dynType_same_tags[OF st2] Cons.prems(3) that by simp
  have n': "rtypes a' T = Some n"
    using IH makeRtype_result_cached[OF mk] rt2 by simp
  have mono: "\<forall>T m. rtypes a T = Some m \<longrightarrow> rtypes a' T = Some m"
    using IH makeRtype_rtypes_mono[OF mk] rt2 by simp
  have st: "same_tags (nodes a) (nodes a')"
    using same_tags_trans[OF st2] IH by blast
  have each: "\<forall>k \<in> set (l # ds). \<exists>T n. dynType a k = Some T \<and> rtypes a' T = Some n"
    using IH dt n' dt2 by auto
  have "n_pts (nodes a' ! result) =
          insert n (n_pts (nodes a ! result)) \<union>
          {n. \<exists>k \<in> set ds. \<exists>T. dynType a k = Some T \<and> rtypes a' T = Some n}"
    using IH pts2 dt2 by auto
  also have "\<dots> = n_pts (nodes a ! result) \<union>
          {n. \<exists>k \<in> set (l # ds). \<exists>T. dynType a k = Some T \<and> rtypes a' T = Some n}"
    using dt n' by auto
  finally show ?case using st mono each by simp
qed

text \<open>
  C7. \<open>makeRtype\<close> is memoized per type. A call with a cached type returns the cached id
  and changes nothing. The first call for \<open>T\<close> appends the rtype object (one node of type
  \<open>T\<close> with a header), the tagged object of type \<open>*rtype\<close> (head and payload, the payload
  node retyped to \<open>T\<close>), emits the addr constraint from the payload to the rtype object
  and caches the id of the tagged object under \<open>T\<close>. Entries of the cache never change,
  so a second call returns the same id. The \<open>solve\<close> rule of the TypeOf constraint adds to
  \<open>pts(result)\<close> exactly the cached ids of the dynamic types of the labels of its input.
\<close>

theorem makeRtype_memoized:
  "(rtypes a T = Some n \<longrightarrow> makeRtype T a = Inr (n, a)) \<and>
   (\<forall>n a'. rtypes a T = None \<and> makeRtype T a = Inr (n, a') \<longrightarrow>
      (\<exists>rt. reflectRtypePtr a = Some rt \<and> n = length (nodes a) + 1 \<and>
            nodes a' = nodes a @ rtypeNodes a T rt \<and>
            constraints a' = constraints a @ [AddrC (n + 1) (length (nodes a))] \<and>
            rtypes a' = (rtypes a)(T \<mapsto> n))) \<and>
   (\<forall>n a' T' m. makeRtype T a = Inr (n, a') \<and> rtypes a T' = Some m \<longrightarrow> rtypes a' T' = Some m) \<and>
   (\<forall>n a'. makeRtype T a = Inr (n, a') \<longrightarrow> makeRtype T a' = Inr (n, a')) \<and>
   (\<forall>a'. reflectTypeOf_solve cgn i result delta a = Inr a' \<and> result < length (nodes a) \<and>
         (\<forall>l \<in> set delta. l < length (nodes a)) \<longrightarrow>
      (\<forall>l \<in> set delta. \<exists>T n. dynType a l = Some T \<and> rtypes a' T = Some n) \<and>
      n_pts (nodes a' ! result) =
        n_pts (nodes a ! result) \<union>
        {n. \<exists>l \<in> set delta. \<exists>T. dynType a l = Some T \<and> rtypes a' T = Some n} \<and>
      (\<forall>T m. rtypes a T = Some m \<longrightarrow> rtypes a' T = Some m))"
proof (intro conjI allI impI)
  show "makeRtype T a = Inr (n, a)" if "rtypes a T = Some n"
    by (rule makeRtype_cached[OF that])
  show "\<exists>rt. reflectRtypePtr a = Some rt \<and> n = length (nodes a) + 1 \<and>
            nodes a' = nodes a @ rtypeNodes a T rt \<and>
            constraints a' = constraints a @ [AddrC (n + 1) (length (nodes a))] \<and>
            rtypes a' = (rtypes a)(T \<mapsto> n)"
    if "rtypes a T = None \<and> makeRtype T a = Inr (n, a')" for n a'
    using makeRtype_Inr[of T a n a'] that by auto
  show "rtypes a' T' = Some m" if "makeRtype T a = Inr (n, a') \<and> rtypes a T' = Some m" for n a' T' m
    using makeRtype_rtypes_mono[of T a n a' T' m] that by simp
  show "makeRtype T a' = Inr (n, a')" if "makeRtype T a = Inr (n, a')" for n a'
    by (rule makeRtype_cached[OF makeRtype_result_cached[OF that]])
next
  fix a'
  assume h: "reflectTypeOf_solve cgn i result delta a = Inr a' \<and> result < length (nodes a) \<and>
         (\<forall>l \<in> set delta. l < length (nodes a))"
  then obtain ch a1 where loop: "reflectTypeOf_loop result delta False a = Inr (ch, a1)"
    and a': "a' = (if ch then addWork result a1 else a1)"
    by (auto simp: reflectTypeOf_solve_def split: sum.splits)
  have eq: "nodes a' = nodes a1" "rtypes a' = rtypes a1"
    by (simp_all add: a' addWork_def)
  from reflectTypeOf_loop_inv[OF loop] h
  have inv: "(\<forall>T m. rtypes a T = Some m \<longrightarrow> rtypes a1 T = Some m) \<and>
         (\<forall>l \<in> set delta. \<exists>T n. dynType a l = Some T \<and> rtypes a1 T = Some n) \<and>
         n_pts (nodes a1 ! result) =
           n_pts (nodes a ! result) \<union>
           {n. \<exists>l \<in> set delta. \<exists>T. dynType a l = Some T \<and> rtypes a1 T = Some n}"
    by simp
  show "\<forall>l \<in> set delta. \<exists>T n. dynType a l = Some T \<and> rtypes a' T = Some n"
    using inv eq by simp
  show "n_pts (nodes a' ! result) =
        n_pts (nodes a ! result) \<union>
        {n. \<exists>l \<in> set delta. \<exists>T. dynType a l = Some T \<and> rtypes a' T = Some n}"
    using inv eq by simp
  show "\<And>T m. rtypes a T = Some m \<Longrightarrow> rtypes a' T = Some m"
    using inv eq by simp
qed

definition ex_cg :: cgnode where
  "ex_cg = \<lparr>cg_fn = ex_main, cg_obj = 0, cg_callersite = None\<rparr>"

text \<open>The state \<open>ex0\<close> with one tagged object of dynamic type \<open>int\<close> at nodes 2 and 3.\<close>

definition ex_tagged :: analysis where
  "ex_tagged = ex0\<lparr>nodes := nodes ex0 @ taggedNodes ex0 (Basic BInt) None DataNil\<rparr>"

lemma ex_tagged_nodes:
  "nodes ex_tagged =
     [\<lparr>n_typ = tInvalid, n_subelement = None, n_obj = None, n_pts = {}\<rparr>,
      \<lparr>n_typ = tEface, n_subelement = None, n_obj = None, n_pts = {}\<rparr>,
      \<lparr>n_typ = Basic BInt, n_subelement = None,
       n_obj = Some \<lparr>o_size = 2, o_cgn = None, o_data = DataNil, o_flags = {otTagged}\<rparr>, n_pts = {}\<rparr>,
      \<lparr>n_typ = Basic BInt, n_subelement = Some \<lparr>fi_typ = Basic BInt, fi_path = []\<rparr>,
       n_obj = None, n_pts = {}\<rparr>]"
  by (simp add: ex_tagged_def ex0_def taggedNodes_def flat1_def fieldNode_def)

theorem makeRtype_memoized_witness:
  "(\<exists>a'. makeRtype (Basic BInt) ex0 = Inr (3, a') \<and> rtypes a' (Basic BInt) = Some 3 \<and>
         constraints a' = [AddrC 4 2] \<and> makeRtype (Basic BInt) a' = Inr (3, a')) \<and>
   (\<exists>a'. reflectTypeOf_solve ex_cg 1 1 [2] ex_tagged = Inr a' \<and>
         dynType ex_tagged 2 = Some (Basic BInt) \<and> rtypes a' (Basic BInt) = Some 5 \<and>
         n_pts (nodes a' ! 1) = {5})"
proof -
  have fl: "flatten ex0 = flat1" "rtypes ex0 = Map.empty" "reflectRtypePtr ex0 = Some ex_rtypePtr"
    "constraints ex0 = []"
    by (simp_all add: ex0_def)
  have flt: "flatten ex_tagged = flat1" "rtypes ex_tagged = Map.empty"
    "reflectRtypePtr ex_tagged = Some ex_rtypePtr" "constraints ex_tagged = []"
    by (simp_all add: ex_tagged_def ex0_def)
  define a1 where "a1 = ex0\<lparr>nodes := nodes ex0 @ rtypeNodes ex0 (Basic BInt) ex_rtypePtr,
            constraints := constraints ex0 @ [AddrC 4 2],
            rtypes := (rtypes ex0)(Basic BInt \<mapsto> 3)\<rparr>"
  have r: "makeRtype (Basic BInt) ex0 = Inr (3, a1)"
    using makeRtype_first[of ex0 "Basic BInt" ex_rtypePtr]
    by (simp add: fl flat1_def ex_rtypePtr_def ex0_nodes eval_nat_numeral a1_def)
  have again: "makeRtype (Basic BInt) a1 = Inr (3, a1)"
    by (rule makeRtype_memoized[of ex0 "Basic BInt", THEN conjunct2, THEN conjunct2,
          THEN conjunct2, THEN conjunct1, rule_format, OF r])
  have part1: "\<exists>a'. makeRtype (Basic BInt) ex0 = Inr (3, a') \<and> rtypes a' (Basic BInt) = Some 3 \<and>
         constraints a' = [AddrC 4 2] \<and> makeRtype (Basic BInt) a' = Inr (3, a')"
    using r again by (intro exI[of _ a1]) (simp add: a1_def fl)
  define b1 where "b1 = ex_tagged\<lparr>nodes := nodes ex_tagged @ rtypeNodes ex_tagged (Basic BInt) ex_rtypePtr,
            constraints := constraints ex_tagged @ [AddrC 6 4],
            rtypes := (rtypes ex_tagged)(Basic BInt \<mapsto> 5)\<rparr>"
  have tv: "taggedValue 2 ex_tagged = Inr (Some (Basic BInt), 3, False)"
    by (simp add: taggedValue_def ex_tagged_nodes)
  have mr: "makeRtype (Basic BInt) ex_tagged = Inr (5, b1)"
    using makeRtype_first[of ex_tagged "Basic BInt" ex_rtypePtr]
    by (simp add: flt flat1_def ex_rtypePtr_def ex_tagged_nodes eval_nat_numeral b1_def)
  have len: "length (nodes b1) = 7"
    by (simp add: b1_def ex_tagged_nodes rtypeNodes_def flt flat1_def ex_rtypePtr_def)
  obtain c b2 where al: "addLabel 1 5 b1 = Inr (c, b2)"
    by (simp add: addLabel_def len)
  have solve: "reflectTypeOf_solve ex_cg 1 1 [2] ex_tagged = Inr (if c then addWork 1 b2 else b2)"
    using al by (simp add: reflectTypeOf_solve_def tv mr)
  have dt: "dynType ex_tagged 2 = Some (Basic BInt)"
    by (simp add: dynType_def tv)
  have rt: "rtypes (if c then addWork 1 b2 else b2) (Basic BInt) = Some 5"
    using addLabel_Inr[OF al] by (simp add: addWork_def b1_def)
  have pre: "reflectTypeOf_solve ex_cg 1 1 [2] ex_tagged = Inr (if c then addWork 1 b2 else b2) \<and>
      1 < length (nodes ex_tagged) \<and> (\<forall>l \<in> set [2]. l < length (nodes ex_tagged))"
    using solve by (simp add: ex_tagged_nodes)
  have pts: "n_pts (nodes (if c then addWork 1 b2 else b2) ! 1) =
        n_pts (nodes ex_tagged ! 1) \<union>
        {n. \<exists>l \<in> set [2]. \<exists>T. dynType ex_tagged l = Some T \<and>
              rtypes (if c then addWork 1 b2 else b2) T = Some n}"
    by (rule makeRtype_memoized[of ex_tagged _ _ ex_cg 1 1 "[2]", THEN conjunct2, THEN conjunct2,
          THEN conjunct2, THEN conjunct2, rule_format, OF pre, THEN conjunct2, THEN conjunct1])
  have "{n. \<exists>l \<in> set [2::nat]. \<exists>T. dynType ex_tagged l = Some T \<and>
              rtypes (if c then addWork 1 b2 else b2) T = Some n} = {5}"
    using dt rt by auto
  with pts have p5: "n_pts (nodes (if c then addWork 1 b2 else b2) ! 1) = {5}"
    by (simp add: ex_tagged_nodes)
  have part2: "\<exists>a'. reflectTypeOf_solve ex_cg 1 1 [2] ex_tagged = Inr a' \<and>
         dynType ex_tagged 2 = Some (Basic BInt) \<and> rtypes a' (Basic BInt) = Some 5 \<and>
         n_pts (nodes a' ! 1) = {5}"
    using solve dt rt p5 by (intro exI[of _ "if c then addWork 1 b2 else b2"] conjI)
  from part1 part2 show ?thesis by (rule conjI)
qed

section \<open>C1: \<open>reflect.Zero\<close> does not reuse its cached result\<close>

text \<open>
  The state \<open>ex0\<close> after \<open>makeRtype(int)\<close>: node 2 is the rtype object, node 3 the
  canonical \<open>*rtype\<close> tagged object of \<open>int\<close> and node 4 its payload.
\<close>

definition ex_rtype :: analysis where
  "ex_rtype = ex0\<lparr>nodes := nodes ex0 @ rtypeNodes ex0 (Basic BInt) ex_rtypePtr,
            constraints := constraints ex0 @ [AddrC 4 2],
            rtypes := (rtypes ex0)(Basic BInt \<mapsto> 3)\<rparr>"

lemma ex_rtype_nodes:
  "nodes ex_rtype =
     [\<lparr>n_typ = tInvalid, n_subelement = None, n_obj = None, n_pts = {}\<rparr>,
      \<lparr>n_typ = tEface, n_subelement = None, n_obj = None, n_pts = {}\<rparr>,
      \<lparr>n_typ = Basic BInt, n_subelement = None,
       n_obj = Some \<lparr>o_size = 1, o_cgn = None, o_data = DataType (Basic BInt), o_flags = {}\<rparr>, n_pts = {}\<rparr>,
      \<lparr>n_typ = ex_rtypePtr, n_subelement = None,
       n_obj = Some \<lparr>o_size = 2, o_cgn = None, o_data = DataType (Basic BInt), o_flags = {otTagged}\<rparr>,
       n_pts = {}\<rparr>,
      \<lparr>n_typ = Basic BInt, n_subelement = Some \<lparr>fi_typ = ex_rtypePtr, fi_path = []\<rparr>,
       n_obj = None, n_pts = {}\<rparr>]"
  by (simp add: ex_rtype_def ex0_def rtypeNodes_def flat1_def fieldNode_def ex_rtypePtr_def)

text \<open>
  One label processed by the \<open>solve\<close> rule of the Zero constraint: whatever
  \<open>a.reflectZeros\<close> holds for the type, a new tagged object is created at the end of the
  node table and its id is the label added to the result.
\<close>

lemma reflectZero_solve_single:
  assumes "rtypeTaggedValue l a = Inr T" "result < length (nodes a)"
  shows "\<exists>a'. reflectZero_solve cgn t result [l] a = Inr a' \<and>
     nodes a' = (nodes a @ taggedNodes a T (Some cgn) DataNil)
               [result := (nodes a ! result)\<lparr>n_pts := insert (length (nodes a)) (n_pts (nodes a ! result))\<rparr>] \<and>
     reflectZeros a' = (reflectZeros a)(T \<mapsto> length (nodes a)) \<and>
     reflectRtypePtr a' = reflectRtypePtr a \<and> flatten a' = flatten a"
proof -
  define b where "b = a\<lparr>nodes := nodes a @ taggedNodes a T (Some cgn) DataNil,
                         reflectZeros := (reflectZeros a)(T \<mapsto> length (nodes a))\<rparr>"
  define b' where "b' = b\<lparr>nodes := (nodes b)[result := (nodes b ! result)
                     \<lparr>n_pts := insert (length (nodes a)) (n_pts (nodes b ! result))\<rparr>]\<rparr>"
  have al: "addLabel result (length (nodes a)) b = Inr (length (nodes a) \<notin> n_pts (nodes b ! result), b')"
    using assms(2) by (simp add: addLabel_def b_def b'_def)
  have loop: "reflectZero_loop cgn result [l] False a =
      Inr (length (nodes a) \<notin> n_pts (nodes b ! result), b')"
    using assms(1) al by (simp add: makeTagged_eq b_def)
  have nb: "nodes b ! result = nodes a ! result" using assms(2) by (simp add: b_def nth_append)
  show ?thesis
  proof (cases "length (nodes a) \<notin> n_pts (nodes b ! result)")
    case True
    then have "reflectZero_solve cgn t result [l] a = Inr (addWork result b')"
      unfolding reflectZero_solve_def loop by simp
    then show ?thesis
      using assms(2) by (intro exI[of _ "addWork result b'"]) (simp add: addWork_def b'_def b_def nth_append)
  next
    case False
    then have "reflectZero_solve cgn t result [l] a = Inr b'"
      unfolding reflectZero_solve_def loop by simp
    then show ?thesis
      using assms(2) by (intro exI[of _ b']) (simp add: b'_def b_def nth_append)
  qed
qed

text \<open>
  C1 (the code at a failing input). The Zero constraint with result node 1 receives the
  label 3, the canonical rtype of \<open>int\<close>, twice (two deltas). The first \<open>solve\<close> creates
  the tagged object 5 and records it in \<open>reflectZeros\<close>; the second creates another
  tagged object, 7, for the same type, and both are in \<open>pts(result)\<close>.
\<close>

theorem reflectZero_creates_object_per_label:
  "\<exists>b c. reflectZero_solve ex_cg 3 1 [3] ex_rtype = Inr b \<and>
         reflectZeros b (Basic BInt) = Some 5 \<and> n_pts (nodes b ! 1) = {5} \<and>
         reflectZero_solve ex_cg 3 1 [3] b = Inr c \<and>
         reflectZeros c (Basic BInt) = Some 7 \<and> n_pts (nodes c ! 1) = {5, 7}"
proof -
  have cfg: "reflectRtypePtr ex_rtype = Some ex_rtypePtr" "flatten ex_rtype = flat1"
    by (simp_all add: ex_rtype_def ex0_def)
  have t1: "rtypeTaggedValue 3 ex_rtype = Inr (Basic BInt)"
    by (simp add: rtypeTaggedValue_def taggedValue_def ex_rtype_nodes cfg)
  from reflectZero_solve_single[OF t1, of 1 ex_cg 3] obtain b where
    b: "reflectZero_solve ex_cg 3 1 [3] ex_rtype = Inr b"
    and nb: "nodes b = (nodes ex_rtype @ taggedNodes ex_rtype (Basic BInt) (Some ex_cg) DataNil)
               [1 := (nodes ex_rtype ! 1)\<lparr>n_pts := insert (length (nodes ex_rtype)) (n_pts (nodes ex_rtype ! 1))\<rparr>]"
    and zb: "reflectZeros b = (reflectZeros ex_rtype)(Basic BInt \<mapsto> length (nodes ex_rtype))"
    and cb: "reflectRtypePtr b = reflectRtypePtr ex_rtype" "flatten b = flatten ex_rtype"
    by (auto simp: ex_rtype_nodes)
  have nb': "nodes b =
     [\<lparr>n_typ = tInvalid, n_subelement = None, n_obj = None, n_pts = {}\<rparr>,
      \<lparr>n_typ = tEface, n_subelement = None, n_obj = None, n_pts = {5}\<rparr>,
      \<lparr>n_typ = Basic BInt, n_subelement = None,
       n_obj = Some \<lparr>o_size = 1, o_cgn = None, o_data = DataType (Basic BInt), o_flags = {}\<rparr>, n_pts = {}\<rparr>,
      \<lparr>n_typ = ex_rtypePtr, n_subelement = None,
       n_obj = Some \<lparr>o_size = 2, o_cgn = None, o_data = DataType (Basic BInt), o_flags = {otTagged}\<rparr>,
       n_pts = {}\<rparr>,
      \<lparr>n_typ = Basic BInt, n_subelement = Some \<lparr>fi_typ = ex_rtypePtr, fi_path = []\<rparr>,
       n_obj = None, n_pts = {}\<rparr>,
      \<lparr>n_typ = Basic BInt, n_subelement = None,
       n_obj = Some \<lparr>o_size = 2, o_cgn = Some ex_cg, o_data = DataNil, o_flags = {otTagged}\<rparr>,
       n_pts = {}\<rparr>,
      \<lparr>n_typ = Basic BInt, n_subelement = Some \<lparr>fi_typ = Basic BInt, fi_path = []\<rparr>,
       n_obj = None, n_pts = {}\<rparr>]"
    by (simp add: nb ex_rtype_nodes taggedNodes_def cfg flat1_def fieldNode_def)
  have t2: "rtypeTaggedValue 3 b = Inr (Basic BInt)"
    by (simp add: rtypeTaggedValue_def taggedValue_def nb' cb cfg)
  from reflectZero_solve_single[OF t2, of 1 ex_cg 3] obtain c where
    c: "reflectZero_solve ex_cg 3 1 [3] b = Inr c"
    and nc: "nodes c = (nodes b @ taggedNodes b (Basic BInt) (Some ex_cg) DataNil)
               [1 := (nodes b ! 1)\<lparr>n_pts := insert (length (nodes b)) (n_pts (nodes b ! 1))\<rparr>]"
    and zc: "reflectZeros c = (reflectZeros b)(Basic BInt \<mapsto> length (nodes b))"
    by (auto simp: nb')
  have "reflectZeros b (Basic BInt) = Some 5" by (simp add: zb ex_rtype_nodes)
  moreover have "n_pts (nodes b ! 1) = {5}" by (simp add: nb')
  moreover have "reflectZeros c (Basic BInt) = Some 7" by (simp add: zc nb')
  moreover have "n_pts (nodes c ! 1) = {5, 7}" by (auto simp: nc nb')
  ultimately show ?thesis using b c by blast
qed

section \<open>C10: the object of the command-line arguments\<close>

text \<open>
  The block of the command-line arguments: the nodes of \<open>[1]string\<close>, the first of them
  carrying the header of an object labelled \<open><command-line args>\<close> without a call-graph
  node.
\<close>

definition osArgsNodes :: "analysis \<Rightarrow> node list" where
  "osArgsNodes a =
     (let fl = flatten a (Array (Basic BString) 1)
      in (fieldNode (hd fl))
           \<lparr>n_obj := Some \<lparr>o_size = length fl, o_cgn = None,
                           o_data = DataString ''<command-line args>'', o_flags = {}\<rparr>\<rparr>
         # map fieldNode (tl fl))"

text \<open>The nodes that carry the header of an object labelled by a string.\<close>

definition labelled_objects :: "node list \<Rightarrow> node list" where
  "labelled_objects ns =
     filter (\<lambda>n. case n_obj n of
                   None \<Rightarrow> False
                 | Some h \<Rightarrow> (case o_data h of DataString s \<Rightarrow> True | _ \<Rightarrow> False)) ns"

lemma labelled_objects_append [simp]:
  "labelled_objects (xs @ ys) = labelled_objects xs @ labelled_objects ys"
  by (simp add: labelled_objects_def)

lemma labelled_objects_fieldNodes [simp]: "labelled_objects (map fieldNode fis) = []"
  by (induction fis) (simp_all add: labelled_objects_def fieldNode_def)

lemma labelled_objects_osArgsNodes: "labelled_objects (osArgsNodes a) = [hd (osArgsNodes a)]"
proof -
  have "labelled_objects (map fieldNode (tl (flatten a (Array (Basic BString) 1)))) = []"
    by simp
  then show ?thesis
    by (simp add: osArgsNodes_def Let_def labelled_objects_def)
qed

lemma labelled_objects_globalBlock:
  "labelled_objects (installHeader (length ns) None (DataValue g) (ns @ map fieldNode fis)) =
     labelled_objects ns"
proof (cases fis)
  case Nil
  then show ?thesis by (simp add: installHeader_empty) (simp add: labelled_objects_def)
next
  case (Cons fi fis')
  have "labelled_objects (map fieldNode fis') = []" by simp
  with Cons show ?thesis
    by (simp add: installHeader_fresh) (simp add: labelled_objects_def)
qed

lemma osArgs_block:
  assumes "flatten a (Array (Basic BString) 1) \<noteq> []"
  shows "(let (obj, a1) = addNodes (Array (Basic BString) 1) ''<command-line args>'' a
          in (case endObject obj None (DataString ''<command-line args>'') a1 of
                Inl e \<Rightarrow> Inl e
              | Inr a2 \<Rightarrow> f obj a2)) =
         f (length (nodes a)) (a\<lparr>nodes := nodes a @ osArgsNodes a\<rparr>)"
proof -
  obtain fi fis where fl: "flatten a (Array (Basic BString) 1) = fi # fis"
    using assms by (cases "flatten a (Array (Basic BString) 1)") auto
  then have fl': "flatten a (Array (Basic BString) (Suc 0)) = fi # fis" by simp
  show ?thesis
    by (simp add: addNodes_eq endObject_eq fl' installHeader_fresh osArgsNodes_def)
qed

lemma length_osArgsNodes:
  "flatten a (Array (Basic BString) 1) \<noteq> [] \<Longrightarrow>
   length (osArgsNodes a) = length (flatten a (Array (Basic BString) 1))"
  by (simp add: osArgsNodes_def Let_def)

text \<open>
  C10. If package \<open>os\<close> is not imported, the last block of \<open>generate\<close> changes nothing. If
  it is imported, \<open>os.Args\<close> being a global variable \<open>g\<close>, the block appends the nodes of
  \<open>[1]string\<close> as one object labelled \<open><command-line args>\<close> with no call-graph node, and
  emits exactly one constraint, \<open>addr\<close> of that object into the object node of \<open>g\<close>. It is
  the only new object labelled by a string; the only other nodes that the block can
  create are the object of the variable \<open>g\<close> itself, when no instruction has referred to
  \<open>g\<close> before. (The sentinel node must exist and \<open>[1]string\<close> must flatten to at least one
  node, as they do after the prologue of \<open>generate\<close>.)
\<close>

theorem generate_osArgs_one_object:
  "(imported_package (prog a) ''os'' = None \<longrightarrow> generate_osArgs a = Inr a) \<and>
   (\<forall>os g t. imported_package (prog a) ''os'' = Some os \<and> pkg_var (prog a) os ''Args'' = Some g \<and>
        vkind g = KGlobal \<and> mustDeref (vtype g) = Some t \<and>
        flatten a (Array (Basic BString) 1) \<noteq> [] \<and> nodes a \<noteq> [] \<and> globalobj a g \<noteq> Some 0 \<longrightarrow>
      (\<exists>a' gobj. generate_osArgs a = Inr a' \<and>
         globalobj a' g = Some gobj \<and>
         (\<forall>n. globalobj a g = Some n \<longrightarrow> gobj = n) \<and>
         (globalobj a g = None \<longrightarrow> gobj = length (nodes a) + sizeof a (Array (Basic BString) 1)) \<and>
         constraints a' = constraints a @ [AddrC gobj (length (nodes a))] \<and>
         nodes a' =
           (if globalobj a g = None
            then installHeader gobj None (DataValue g)
                   (nodes a @ osArgsNodes a @ map fieldNode (flatten a t))
            else nodes a @ osArgsNodes a) \<and>
         labelled_objects (nodes a') = labelled_objects (nodes a) @ [hd (osArgsNodes a)] \<and>
         n_obj (hd (osArgsNodes a)) =
           Some \<lparr>o_size = sizeof a (Array (Basic BString) 1), o_cgn = None,
                 o_data = DataString ''<command-line args>'', o_flags = {}\<rparr> \<and>
         cgnodes a' = cgnodes a \<and> static_part a' = static_part a))"
proof (intro conjI allI impI)
  show "generate_osArgs a = Inr a" if "imported_package (prog a) ''os'' = None"
    using that by (simp add: generate_osArgs_def)
next
  fix os g t
  assume h: "imported_package (prog a) ''os'' = Some os \<and> pkg_var (prog a) os ''Args'' = Some g \<and>
        vkind g = KGlobal \<and> mustDeref (vtype g) = Some t \<and>
        flatten a (Array (Basic BString) 1) \<noteq> [] \<and> nodes a \<noteq> [] \<and> globalobj a g \<noteq> Some 0"
  define a2 where "a2 = a\<lparr>nodes := nodes a @ osArgsNodes a\<rparr>"
  have fl: "flatten a (Array (Basic BString) 1) \<noteq> []" and ne: "nodes a \<noteq> []" using h by auto
  have gen: "generate_osArgs a =
      (case objectNode_global g a2 of
         Inl e \<Rightarrow> Inl e
       | Inr (gobj, a3) \<Rightarrow> addressOf gobj (length (nodes a)) a3)"
    unfolding generate_osArgs_def a2_def osArgs_block[OF fl] using h
    by (simp add: objectNode_def)
  have hdr: "n_obj (hd (osArgsNodes a)) =
           Some \<lparr>o_size = sizeof a (Array (Basic BString) 1), o_cgn = None,
                 o_data = DataString ''<command-line args>'', o_flags = {}\<rparr>"
    by (simp add: osArgsNodes_def Let_def sizeof_def)
  show "\<exists>a' gobj. generate_osArgs a = Inr a' \<and>
         globalobj a' g = Some gobj \<and>
         (\<forall>n. globalobj a g = Some n \<longrightarrow> gobj = n) \<and>
         (globalobj a g = None \<longrightarrow> gobj = length (nodes a) + sizeof a (Array (Basic BString) 1)) \<and>
         constraints a' = constraints a @ [AddrC gobj (length (nodes a))] \<and>
         nodes a' =
           (if globalobj a g = None
            then installHeader gobj None (DataValue g)
                   (nodes a @ osArgsNodes a @ map fieldNode (flatten a t))
            else nodes a @ osArgsNodes a) \<and>
         labelled_objects (nodes a') = labelled_objects (nodes a) @ [hd (osArgsNodes a)] \<and>
         n_obj (hd (osArgsNodes a)) =
           Some \<lparr>o_size = sizeof a (Array (Basic BString) 1), o_cgn = None,
                 o_data = DataString ''<command-line args>'', o_flags = {}\<rparr> \<and>
         cgnodes a' = cgnodes a \<and> static_part a' = static_part a"
  proof (cases "globalobj a g")
    case None
    define gobj where "gobj = length (nodes a) + length (osArgsNodes a)"
    define a' where "a' = a\<lparr>nodes := installHeader gobj None (DataValue g)
                   (nodes a @ osArgsNodes a @ map fieldNode (flatten a t)),
                 globalobj := (globalobj a)(g \<mapsto> gobj),
                 constraints := constraints a @ [AddrC gobj (length (nodes a))]\<rparr>"
    have on: "objectNode_global g a2 =
        Inr (gobj, a\<lparr>nodes := installHeader gobj None (DataValue g)
                   (nodes a @ osArgsNodes a @ map fieldNode (flatten a t)),
                 globalobj := (globalobj a)(g \<mapsto> gobj)\<rparr>)"
      using h None endObject_addNodes[of a2 None "DataValue g" t "''global''"]
      by (simp add: objectNode_global_def a2_def gobj_def nextNode_def)
    have "gobj \<noteq> 0" using ne by (simp add: gobj_def)
    then have r: "generate_osArgs a = Inr a'"
      unfolding gen on using ne by (simp add: addressOf_def addConstraint_def a'_def)
    have lo: "labelled_objects (nodes a') = labelled_objects (nodes a) @ [hd (osArgsNodes a)]"
      using labelled_objects_globalBlock[of "nodes a @ osArgsNodes a" g "flatten a t"]
      by (simp add: a'_def gobj_def labelled_objects_osArgsNodes)
    show ?thesis
      by (intro exI[of _ a'] exI[of _ gobj])
         (simp add: r lo hdr None, simp add: a'_def gobj_def length_osArgsNodes[OF fl] sizeof_def)
  next
    case (Some n)
    define a' where "a' = a\<lparr>nodes := nodes a @ osArgsNodes a,
                 constraints := constraints a @ [AddrC n (length (nodes a))]\<rparr>"
    have on: "objectNode_global g a2 = Inr (n, a2)"
      using Some by (simp add: objectNode_global_def a2_def)
    have "n \<noteq> 0" using h Some by auto
    then have r: "generate_osArgs a = Inr a'"
      unfolding gen on using ne by (simp add: addressOf_def addConstraint_def a'_def a2_def)
    show ?thesis
      by (intro exI[of _ a'] exI[of _ n])
         (simp add: r hdr Some, simp add: a'_def labelled_objects_osArgsNodes Some)
  qed
qed

theorem generate_osArgs_one_object_witness:
  "generate_osArgs (ex0\<lparr>prog := ex_prog\<lparr>imported_package := (\<lambda>p. None)\<rparr>\<rparr>) =
     Inr (ex0\<lparr>prog := ex_prog\<lparr>imported_package := (\<lambda>p. None)\<rparr>\<rparr>) \<and>
   (\<exists>a'. generate_osArgs ex0 = Inr a' \<and> globalobj a' ex_osArgs = Some 3 \<and>
      constraints a' = [AddrC 3 2] \<and> length (nodes a') = 4 \<and>
      labelled_objects (nodes a') = [hd (osArgsNodes ex0)] \<and>
      n_obj (nodes a' ! 2) =
        Some \<lparr>o_size = 1, o_cgn = None, o_data = DataString ''<command-line args>'', o_flags = {}\<rparr> \<and>
      n_obj (nodes a' ! 3) =
        Some \<lparr>o_size = 1, o_cgn = None, o_data = DataValue ex_osArgs, o_flags = {}\<rparr>)"
proof
  show "generate_osArgs (ex0\<lparr>prog := ex_prog\<lparr>imported_package := (\<lambda>p. None)\<rparr>\<rparr>) =
     Inr (ex0\<lparr>prog := ex_prog\<lparr>imported_package := (\<lambda>p. None)\<rparr>\<rparr>)"
    using generate_osArgs_one_object[of "ex0\<lparr>prog := ex_prog\<lparr>imported_package := (\<lambda>p. None)\<rparr>\<rparr>",
        THEN conjunct1]
    by simp
next
  have pre: "imported_package (prog ex0) ''os'' = Some ''os'' \<and>
        pkg_var (prog ex0) ''os'' ''Args'' = Some ex_osArgs \<and>
        vkind ex_osArgs = KGlobal \<and> mustDeref (vtype ex_osArgs) = Some (Slice (Basic BString)) \<and>
        flatten ex0 (Array (Basic BString) 1) \<noteq> [] \<and> nodes ex0 \<noteq> [] \<and>
        globalobj ex0 ex_osArgs \<noteq> Some 0"
    by (simp add: ex0_def ex_prog_def ex_osArgs_def mustDeref_def flat1_def)
  have sz: "sizeof ex0 (Array (Basic BString) 1) = 1"
    by (simp add: sizeof_def ex0_def flat1_def)
  have blk: "osArgsNodes ex0 =
      [\<lparr>n_typ = Array (Basic BString) 1, n_subelement = Some \<lparr>fi_typ = Array (Basic BString) 1, fi_path = []\<rparr>,
        n_obj = Some \<lparr>o_size = 1, o_cgn = None, o_data = DataString ''<command-line args>'', o_flags = {}\<rparr>,
        n_pts = {}\<rparr>]"
    by (simp add: osArgsNodes_def ex0_def flat1_def fieldNode_def)
  from generate_osArgs_one_object[of ex0, THEN conjunct2, rule_format, OF pre]
  obtain a' gobj where r: "generate_osArgs ex0 = Inr a'"
    and g: "globalobj a' ex_osArgs = Some gobj"
    and gv: "globalobj ex0 ex_osArgs = None \<longrightarrow> gobj = length (nodes ex0) + sizeof ex0 (Array (Basic BString) 1)"
    and c: "constraints a' = constraints ex0 @ [AddrC gobj (length (nodes ex0))]"
    and n: "nodes a' =
           (if globalobj ex0 ex_osArgs = None
            then installHeader gobj None (DataValue ex_osArgs)
                   (nodes ex0 @ osArgsNodes ex0 @ map fieldNode (flatten ex0 (Slice (Basic BString))))
            else nodes ex0 @ osArgsNodes ex0)"
    and l: "labelled_objects (nodes a') = labelled_objects (nodes ex0) @ [hd (osArgsNodes ex0)]"
    by (elim exE conjE) (rule that)
  have none: "globalobj ex0 ex_osArgs = None" by (simp add: ex0_def)
  have len: "length (nodes ex0) = 2" by (simp add: ex0_def)
  from gv none sz len have gobj: "gobj = 3" by simp
  have l0: "labelled_objects (nodes ex0) = []" by (simp add: ex0_def labelled_objects_def)
  have c0: "constraints ex0 = []" by (simp add: ex0_def)
  have fl: "flatten ex0 (Slice (Basic BString)) = [\<lparr>fi_typ = Slice (Basic BString), fi_path = []\<rparr>]"
    by (simp add: ex0_def flat1_def)
  have n': "nodes a' = nodes ex0 @ osArgsNodes ex0 @
      [\<lparr>n_typ = Slice (Basic BString), n_subelement = Some \<lparr>fi_typ = Slice (Basic BString), fi_path = []\<rparr>,
        n_obj = Some \<lparr>o_size = 1, o_cgn = None, o_data = DataValue ex_osArgs, o_flags = {}\<rparr>,
        n_pts = {}\<rparr>]"
    using installHeader_fresh[of "nodes ex0 @ osArgsNodes ex0" None "DataValue ex_osArgs"
        "fieldNode \<lparr>fi_typ = Slice (Basic BString), fi_path = []\<rparr>" "[]"]
    by (simp add: n none gobj fl len blk fieldNode_def)
  show "\<exists>a'. generate_osArgs ex0 = Inr a' \<and> globalobj a' ex_osArgs = Some 3 \<and>
      constraints a' = [AddrC 3 2] \<and> length (nodes a') = 4 \<and>
      labelled_objects (nodes a') = [hd (osArgsNodes ex0)] \<and>
      n_obj (nodes a' ! 2) =
        Some \<lparr>o_size = 1, o_cgn = None, o_data = DataString ''<command-line args>'', o_flags = {}\<rparr> \<and>
      n_obj (nodes a' ! 3) =
        Some \<lparr>o_size = 1, o_cgn = None, o_data = DataValue ex_osArgs, o_flags = {}\<rparr>"
    using r g c l
    by (intro exI[of _ a']) (simp add: gobj l0 c0 len n' blk nth_append eval_nat_numeral)
qed

section \<open>What the generator of value and object nodes leaves unchanged\<close>

text \<open>
  The node table and the constraint list only grow at the end, the caches of global
  values and global objects only gain entries, and no contour of a call site is made.
\<close>

definition extends :: "'a list \<Rightarrow> 'a list \<Rightarrow> bool" where
  "extends xs ys \<longleftrightarrow> take (length xs) ys = xs"

lemma extends_refl [simp]: "extends xs xs"
  by (simp add: extends_def)

lemma extends_append [simp]: "extends xs (xs @ zs)"
  by (simp add: extends_def)

lemma extends_append2 [simp]: "extends xs (xs @ ys @ zs)"
  by (simp add: extends_def)

lemma extends_iff: "extends xs ys \<longleftrightarrow> (\<exists>zs. ys = xs @ zs)"
  unfolding extends_def by (metis append_eq_conv_conj append_take_drop_id)

lemma extends_trans: "extends xs ys \<Longrightarrow> extends ys zs \<Longrightarrow> extends xs zs"
  by (auto simp: extends_iff)

lemma extends_length: "extends xs ys \<Longrightarrow> length xs \<le> length ys"
  by (auto simp: extends_iff)

lemma extends_nth: "extends xs ys \<Longrightarrow> i < length xs \<Longrightarrow> ys ! i = xs ! i"
  by (auto simp: extends_iff nth_append)

lemma extends_installHeader: "extends ns (installHeader (length ns) cgn d (ns @ ms))"
  by (cases ms) (simp_all add: installHeader_empty installHeader_fresh)

lemma extends_installHeader_later:
  "extends ns (installHeader (length ns + length ks) cgn d (ns @ ks @ ms))"
  using extends_installHeader[of "ns @ ks" cgn d ms] by (auto simp: extends_iff)

lemma map_le_fresh: "m v = None \<Longrightarrow> m \<subseteq>\<^sub>m m(v \<mapsto> n)"
  by (auto simp: map_le_def)

text \<open>The contours that belong to one call site.\<close>

definition ctx_cgnodes :: "analysis \<Rightarrow> cgnode list" where
  "ctx_cgnodes a = filter (\<lambda>c. cg_callersite c \<noteq> None) (cgnodes a)"

definition gen_frame :: "analysis \<Rightarrow> analysis \<Rightarrow> bool" where
  "gen_frame a a' \<longleftrightarrow>
     static_part a' = static_part a \<and> ctx_cgnodes a' = ctx_cgnodes a \<and>
     extends (nodes a) (nodes a') \<and> extends (constraints a) (constraints a') \<and>
     localval a' = localval a \<and> globalval a \<subseteq>\<^sub>m globalval a' \<and> globalobj a \<subseteq>\<^sub>m globalobj a'"

lemma ctx_cgnodes_upd [simp]:
  "ctx_cgnodes (nodes_update f1 a) = ctx_cgnodes a"
  "ctx_cgnodes (constraints_update f2 a) = ctx_cgnodes a"
  "ctx_cgnodes (genq_update f4 a) = ctx_cgnodes a"
  "ctx_cgnodes (globalval_update f5 a) = ctx_cgnodes a"
  "ctx_cgnodes (globalobj_update f6 a) = ctx_cgnodes a"
  "ctx_cgnodes (localval_update f7 a) = ctx_cgnodes a"
  "ctx_cgnodes (localobj_update f8 a) = ctx_cgnodes a"
  "ctx_cgnodes (res_queries_update f9 a) = ctx_cgnodes a"
  by (simp_all add: ctx_cgnodes_def)

lemma gen_frame_refl [simp]: "gen_frame a a"
  by (simp add: gen_frame_def)

lemma gen_frame_trans: "gen_frame a b \<Longrightarrow> gen_frame b c \<Longrightarrow> gen_frame a c"
  unfolding gen_frame_def
  by (metis extends_trans map_le_trans)

lemma gen_frame_upd [simp]:
  "gen_frame a (genq_update f4 b) = gen_frame a b"
  "gen_frame a (localobj_update f8 b) = gen_frame a b"
  "gen_frame a (res_queries_update f9 b) = gen_frame a b"
  by (simp_all add: gen_frame_def)

lemma gen_frame_nodes: "extends (nodes a) ns \<Longrightarrow> gen_frame a (a\<lparr>nodes := ns\<rparr>)"
  by (simp add: gen_frame_def)

lemma gen_frame_constraints: "gen_frame a (a\<lparr>constraints := constraints a @ cs\<rparr>)"
  by (simp add: gen_frame_def)

lemma gen_frame_globalval:
  "globalval a v = None \<Longrightarrow> gen_frame a (a\<lparr>globalval := (globalval a)(v \<mapsto> n)\<rparr>)"
  by (simp add: gen_frame_def map_le_fresh)

lemma gen_frame_copy: "copy d s n a = Inr a' \<Longrightarrow> gen_frame a a'"
  by (auto simp: copy_def copy_loop_eq gen_frame_constraints split: if_splits)

lemma gen_frame_load: "load d s off n a = Inr a' \<Longrightarrow> gen_frame a a'"
  by (auto simp: load_def load_loop_eq gen_frame_constraints split: if_splits)

lemma gen_frame_store: "store d s off n a = Inr a' \<Longrightarrow> gen_frame a a'"
  by (auto simp: store_def store_loop_eq gen_frame_constraints split: if_splits)

lemma gen_frame_addressOf: "addressOf n obj a = Inr a' \<Longrightarrow> gen_frame a a'"
  by (auto simp: addressOf_def addConstraint_def gen_frame_constraints split: if_splits)

lemma gen_frame_addNodes: "gen_frame a (snd (addNodes t c a))"
  by (simp add: addNodes_eq gen_frame_nodes)

lemma gen_frame_addOneNode: "gen_frame a (snd (addOneNode t c sub a))"
  by (simp add: addOneNode_eq gen_frame_nodes)

lemma gen_frame_makeTagged: "makeTagged t cgn d a = Inr (n, a') \<Longrightarrow> gen_frame a a'"
  by (auto simp: makeTagged_eq gen_frame_nodes)

lemma gen_frame_alloc:
  "endObject (nextNode a) cgn d (snd (addNodes t c a)) = Inr a' \<Longrightarrow> gen_frame a a'"
  by (auto simp: nextNode_def endObject_addNodes gen_frame_nodes extends_installHeader)

lemma gen_frame_alloc2:
  assumes "endObject (nextNode a) cgn d (snd (addNodes t2 c2 (snd (addNodes t1 c1 a)))) = Inr a'"
  shows "gen_frame a a'"
proof -
  have "a' = a\<lparr>nodes := installHeader (length (nodes a)) cgn d
      (nodes a @ map fieldNode (flatten a t1) @ map fieldNode (flatten a t2))\<rparr>"
    using assms by (simp add: nextNode_def endObject_eq addNodes_eq)
  then show ?thesis
    by (simp add: gen_frame_nodes extends_installHeader)
qed

lemma extends_funcObjectNodes:
  "sigParts (vtype fn) \<noteq> None \<Longrightarrow> extends (nodes a) (funcObjectNodes a fn cs)"
  by (auto simp: funcObjectNodes_def Let_def installHeader_fresh extends_def nth_append
      list_update_append)

lemma gen_frame_objectNode_global:
  assumes "objectNode_global v a = Inr (obj, a')"
  shows "gen_frame a a'"
  using objectNode_global_shape[OF assms]
proof (elim disjE conjE exE)
  fix syn pkg
  assume "sigParts (vtype v) \<noteq> None" and none: "globalobj a v = None"
    and a': "a' = a\<lparr>cgnodes := cgnodes a @ [\<lparr>cg_fn = v, cg_obj = length (nodes a), cg_callersite = None\<rparr>],
                   nodes := funcObjectNodes a v None,
                   genq := genq a @ [\<lparr>cg_fn = v, cg_obj = length (nodes a), cg_callersite = None\<rparr>],
                   globalobj := (globalobj a)(v \<mapsto> obj)\<rparr>"
  from extends_funcObjectNodes[OF this(1), of a None] a' none show ?thesis
    by (simp add: gen_frame_def static_part_def ctx_cgnodes_def map_le_fresh)
qed (simp_all add: gen_frame_def extends_installHeader map_le_fresh)

lemma globalval_addressOf: "addressOf n obj a = Inr a' \<Longrightarrow> globalval a' = globalval a"
  by (auto simp: addressOf_def addConstraint_def split: if_splits)

lemma cachedValue_None_globalval: "cachedValue a v = None \<Longrightarrow> globalval a v = None"
  by (auto simp: cachedValue_def split: option.splits)

lemma gen_frame_mutual:
  "\<forall>obj a'. objectNode_local cgn v a = Inr (obj, a') \<longrightarrow> gen_frame a a'"
  "\<forall>n a'. valueNode v2 a2 = Inr (n, a') \<longrightarrow> gen_frame a2 a'"
  "\<forall>a'. setValueNode v3 n3 cgn3 a3 = Inr a' \<longrightarrow> cgn3 = None \<longrightarrow> globalval a3 v3 = None \<longrightarrow>
     gen_frame a3 a'"
  "\<forall>a'. genLoad cgn4 r4 ptr4 off4 sz4 a4 = Inr a' \<longrightarrow> gen_frame a4 a'"
  "\<forall>a'. methodNodes fs a5 = Inr a' \<longrightarrow> gen_frame a5 a'"
proof (induction cgn v a and v2 a2 and v3 n3 cgn3 a3 and cgn4 r4 ptr4 off4 sz4 a4 and fs a5
    rule: objectNode_local_valueNode_setValueNode_genLoad_methodNodes.induct)
  case (1 cgn v a)
  show ?case
  proof (intro allI impI)
    fix obj a'
    assume res: "objectNode_local cgn v a = Inr (obj, a')"
    show "gen_frame a a'"
    proof (cases "lookupLocal (localobj a) v")
      case (Some n)
      with res show ?thesis by (simp add: objectNode_local.simps[of cgn v a])
    next
      case None
      note eq = res[unfolded objectNode_local.simps[of cgn v a], simplified None, simplified]
      show ?thesis
      proof (cases "vkind v")
        case KAlloc
        with eq show ?thesis
          by (auto split: option.splits sum.splits dest!: gen_frame_alloc)
      next
        case KMakeSlice
        with eq show ?thesis
          by (auto split: option.splits sum.splits dest!: gen_frame_alloc)
      next
        case KMakeChan
        with eq show ?thesis
          by (auto split: option.splits sum.splits gotype.splits dest!: gen_frame_alloc)
      next
        case KMakeMap
        with eq show ?thesis
          by (auto split: option.splits sum.splits gotype.splits dest!: gen_frame_alloc2)
      next
        case (KMakeInterface x)
        from eq KMakeInterface obtain a1 ob a2 xn a3 a4 where
          m: "methodNodes (method_funcs (prog a) (vtype x)) a = Inr a1" and
          t: "makeTagged (vtype x) (Some cgn) (DataValue v) a1 = Inr (ob, a2)" and
          vn: "valueNode x a2 = Inr (xn, a3)" and
          c: "xn \<noteq> 0 \<and> copy (ob + 1) xn (sizeof a3 (vtype x)) a3 = Inr a4 \<or> xn = 0 \<and> a4 = a3" and
          a': "gen_frame a a' = gen_frame a a4"
          by (auto split: option.splits sum.splits if_splits)
        from "1.IH"(1)[OF None KMakeInterface] m have f1: "gen_frame a a1" by simp
        from t have f2: "gen_frame a1 a2" by (rule gen_frame_makeTagged)
        from "1.IH"(2)[OF None KMakeInterface m t refl] vn have f3: "gen_frame a2 a3" by simp
        from c have f4: "gen_frame a3 a4" by (auto dest: gen_frame_copy)
        from f1 f2 f3 f4 a' show ?thesis by (blast intro: gen_frame_trans)
      next
        case (KFieldAddr x f)
        from eq KFieldAddr obtain xobj a1 where
          r: "objectNode_local cgn x a = Inr (xobj, a1)" and a': "gen_frame a a' = gen_frame a a1"
          by (auto split: option.splits sum.splits if_splits)
        from "1.IH"(3)[OF None KFieldAddr] r a' show ?thesis by simp
      next
        case (KIndexAddr x)
        from eq KIndexAddr obtain xobj a1 where
          r: "objectNode_local cgn x a = Inr (xobj, a1)" and a': "gen_frame a a' = gen_frame a a1"
          by (auto split: option.splits sum.splits if_splits)
        from "1.IH"(4)[OF None KIndexAddr] r a' show ?thesis by simp
      next
        case (KSlice x)
        from eq KSlice obtain xobj a1 where
          r: "objectNode_local cgn x a = Inr (xobj, a1)" and a': "gen_frame a a' = gen_frame a a1"
          by (auto split: option.splits sum.splits if_splits)
        from "1.IH"(5)[OF None KSlice] r a' show ?thesis by simp
      qed (use eq in \<open>auto split: option.splits\<close>)
    qed
  qed
next
  case (2 v a)
  show ?case
  proof (intro allI impI)
    fix n a'
    assume res: "valueNode v a = Inr (n, a')"
    show "gen_frame a a'"
    proof (cases "cachedValue a v")
      case (Some k)
      with res show ?thesis by (simp add: valueNode.simps[of v a])
    next
      case None
      from res None obtain obj a2 a3 where
        g: "objectNode_global v (snd (addOneNode (vtype v) [] None a)) = Inr (obj, a2)" and
        ad: "(if obj \<noteq> 0 then addressOf (nextNode a) obj a2 else Inr a2) = Inr a3" and
        s: "setValueNode v (nextNode a) None a3 = Inr a'"
        by (auto simp: valueNode.simps[of v a] split: sum.splits)
      have f1: "gen_frame a (snd (addOneNode (vtype v) [] None a))" by (rule gen_frame_addOneNode)
      from g have f2: "gen_frame (snd (addOneNode (vtype v) [] None a)) a2"
        by (rule gen_frame_objectNode_global)
      from ad have f3: "gen_frame a2 a3" by (auto split: if_splits dest: gen_frame_addressOf)
      have "globalval a3 = globalval a2" using ad by (auto split: if_splits dest: globalval_addressOf)
      moreover have "globalval a2 = globalval a"
        using objectNode_global_frame[OF g] by (simp add: addOneNode_eq)
      ultimately have "globalval a3 v = None" using cachedValue_None_globalval[OF None] by simp
      with "2.IH"[OF None g refl ad] s have f4: "gen_frame a3 a'" by simp
      from f1 f2 f3 f4 show ?thesis by (blast intro: gen_frame_trans)
    qed
  qed
next
  case (3 v n cgn a)
  show ?case
  proof (intro allI impI)
    fix a'
    assume res: "setValueNode v n cgn a = Inr a'" and cgn: "cgn = None" and fresh: "globalval a v = None"
    define a1 where "a1 = a\<lparr>globalval := (globalval a)(v \<mapsto> n)\<rparr>"
    have f1: "gen_frame a a1" unfolding a1_def using fresh by (rule gen_frame_globalval)
    have b: "(if cgn \<noteq> None
            then case localval a of None \<Rightarrow> Inl NilMapWrite
                 | Some m \<Rightarrow> Inr (a\<lparr>localval := Some (m(v \<mapsto> n))\<rparr>)
            else Inr (a\<lparr>globalval := (globalval a)(v \<mapsto> n)\<rparr>)) = Inr a1"
      using cgn by (simp add: a1_def)
    note eq = res[unfolded setValueNode.simps[of v n cgn a] b, simplified]
    show "gen_frame a a'"
    proof (cases "cfg_queries a1 v")
      case None
      with eq f1 show ?thesis by simp
    next
      case (Some indirect)
      show ?thesis
      proof (cases indirect)
        case True
        from eq Some True obtain a3 where
          l: "genLoad cgn (fst (addNodes (vtype v) ''query.indirect'' a1)) v 0
                (sizeof a1 (vtype v)) (snd (addNodes (vtype v) ''query.indirect'' a1)) = Inr a3" and
          a': "gen_frame a a' = gen_frame a a3"
          by (auto split: sum.splits)
        from "3.IH"[OF b Some True] l have f3: "gen_frame (snd (addNodes (vtype v) ''query.indirect'' a1)) a3"
          by simp
        have f2: "gen_frame a1 (snd (addNodes (vtype v) ''query.indirect'' a1))"
          by (rule gen_frame_addNodes)
        from f1 f2 f3 a' show ?thesis by (blast intro: gen_frame_trans)
      next
        case False
        with eq Some f1 show ?thesis by auto
      qed
    qed
  qed
next
  case (4 cgn result ptr offset sz a)
  show ?case
  proof (intro allI impI)
    fix a'
    assume res: "genLoad cgn result ptr offset sz a = Inr a'"
    from res obtain obj a1 where
      o: "(case cgn of None \<Rightarrow> objectNode_global ptr a | Some c \<Rightarrow> objectNode_local c ptr a) = Inr (obj, a1)" and
      r: "(if obj \<noteq> 0 then copy result (add32 obj offset) sz a1
           else (case valueNode ptr a1 of Inl e \<Rightarrow> Inl e
                 | Inr (src, a2) \<Rightarrow> load result src offset sz a2)) = Inr a'"
      by (auto simp: genLoad.simps[of cgn result ptr offset sz a] split: sum.splits)
    have f1: "gen_frame a a1"
    proof (cases cgn)
      case None
      with o show ?thesis by (auto dest: gen_frame_objectNode_global)
    next
      case (Some c)
      with "4.IH"(1)[OF Some] o show ?thesis by simp
    qed
    show "gen_frame a a'"
    proof (cases "obj = 0")
      case False
      with r have "gen_frame a1 a'" by (auto dest: gen_frame_copy)
      with f1 show ?thesis by (rule gen_frame_trans)
    next
      case True
      with r obtain src a2 where vn: "valueNode ptr a1 = Inr (src, a2)"
        and l: "load result src offset sz a2 = Inr a'"
        by (auto split: sum.splits)
      from "4.IH"(2)[OF o refl] True vn have f2: "gen_frame a1 a2" by simp
      from l have f3: "gen_frame a2 a'" by (rule gen_frame_load)
      from f1 f2 f3 show ?thesis by (blast intro: gen_frame_trans)
    qed
  qed
next
  case (5 a)
  show ?case by simp
next
  case (6 f fs a)
  show ?case
  proof (intro allI impI)
    fix a'
    assume res: "methodNodes (f # fs) a = Inr a'"
    then obtain n a1 where vn: "valueNode (funcValue f) a = Inr (n, a1)"
      and m: "methodNodes fs a1 = Inr a'"
      by (auto split: sum.splits)
    from "6.IH"(1) vn have f1: "gen_frame a a1" by simp
    from "6.IH"(2)[OF vn refl] m have f2: "gen_frame a1 a'" by simp
    from f1 f2 show "gen_frame a a'" by (rule gen_frame_trans)
  qed
qed

lemma gen_frame_valueNode: "valueNode v a = Inr (n, a') \<Longrightarrow> gen_frame a a'"
  using gen_frame_mutual(2) by blast

lemma gen_frame_objectNode_local: "objectNode_local c v a = Inr (obj, a') \<Longrightarrow> gen_frame a a'"
  using gen_frame_mutual(1) by blast

lemma gen_frame_genLoad: "genLoad cgn r ptr off sz a = Inr a' \<Longrightarrow> gen_frame a a'"
  using gen_frame_mutual(4) by blast

lemma gen_frame_objectNode: "objectNode cgn v a = Inr (obj, a') \<Longrightarrow> gen_frame a a'"
  by (cases cgn) (auto simp: objectNode_def dest: gen_frame_objectNode_global gen_frame_objectNode_local)

text \<open>Taking a successful sequence of fallible steps apart.\<close>

lemma bindE:
  assumes "(case x of Inl e \<Rightarrow> Inl e | Inr y \<Rightarrow> f y) = Inr r"
  obtains y where "x = Inr y" "f y = Inr r"
  using assms by (cases x) auto

lemma bind2E:
  assumes "(case x of Inl e \<Rightarrow> Inl e | Inr (u, w) \<Rightarrow> f u w) = Inr r"
  obtains u w where "x = Inr (u, w)" "f u w = Inr r"
  using assms by (cases x) auto

lemma bindOptE:
  assumes "(case x of None \<Rightarrow> Inl e | Some y \<Rightarrow> f y) = Inr r"
  obtains y where "x = Some y" "f y = Inr r"
  using assms by (cases x) auto

lemma gen_frame_genStore:
  assumes "genStore cgn ptr val off sz a = Inr a'"
  shows "gen_frame a a'"
proof -
  from assms[unfolded genStore_def] obtain obj a1 where
    o: "objectNode cgn ptr a = Inr (obj, a1)" and
    r: "(if obj \<noteq> 0 then copy (add32 obj off) val sz a1
         else (case valueNode ptr a1 of Inl e \<Rightarrow> Inl e
               | Inr (dst, a2) \<Rightarrow> store dst val off sz a2)) = Inr a'"
    by (rule bind2E)
  from o have f1: "gen_frame a a1" by (rule gen_frame_objectNode)
  show ?thesis
  proof (cases "obj = 0")
    case False
    with r have "gen_frame a1 a'" by (auto dest: gen_frame_copy)
    with f1 show ?thesis by (rule gen_frame_trans)
  next
    case True
    with r have "(case valueNode ptr a1 of Inl e \<Rightarrow> Inl e
               | Inr (dst, a2) \<Rightarrow> store dst val off sz a2) = Inr a'" by simp
    then obtain dst a2 where vn: "valueNode ptr a1 = Inr (dst, a2)"
      and st: "store dst val off sz a2 = Inr a'"
      by (rule bind2E)
    from f1 gen_frame_valueNode[OF vn] gen_frame_store[OF st] show ?thesis
      by (blast intro: gen_frame_trans)
  qed
qed

lemma gen_frame_copyElems:
  assumes "copyElems cgn t dst src a = Inr a'"
  shows "gen_frame a a'"
proof -
  from assms have "(case genLoad cgn (fst (addNodes t ''copy'' a)) src 1
        (sizeof (snd (addNodes t ''copy'' a)) t) (snd (addNodes t ''copy'' a)) of
           Inl e \<Rightarrow> Inl e
         | Inr a2 \<Rightarrow> genStore cgn dst (fst (addNodes t ''copy'' a)) 1
              (sizeof (snd (addNodes t ''copy'' a)) t) a2) = Inr a'"
    by (simp add: copyElems_def Let_def split_beta)
  then obtain a2 where
    l: "genLoad cgn (fst (addNodes t ''copy'' a)) src 1
        (sizeof (snd (addNodes t ''copy'' a)) t) (snd (addNodes t ''copy'' a)) = Inr a2" and
    st: "genStore cgn dst (fst (addNodes t ''copy'' a)) 1
              (sizeof (snd (addNodes t ''copy'' a)) t) a2 = Inr a'"
    by (rule bindE)
  from gen_frame_addNodes[of a t "''copy''"] gen_frame_genLoad[OF l] gen_frame_genStore[OF st]
  show ?thesis by (blast intro: gen_frame_trans)
qed

lemma gen_frame_copyActuals: "copyActuals ps args params a = Inr a' \<Longrightarrow> gen_frame a a'"
proof (induction ps args params a rule: copyActuals.induct)
  case (1 ps params a)
  then show ?case by simp
next
  case (2 arg args params a)
  then show ?case by simp
next
  case (3 p ps arg args params a)
  from "3.prems" obtain n a1 where vn: "valueNode arg a = Inr (n, a1)"
    and r: "(case copy params n (sizeof a p) a1 of
             Inl e \<Rightarrow> Inl e
           | Inr a2 \<Rightarrow> copyActuals ps args (params + sizeof a p) a2) = Inr a'"
    unfolding copyActuals.simps by (rule bind2E)
  from r obtain a2 where c: "copy params n (sizeof a p) a1 = Inr a2"
    and rest: "copyActuals ps args (params + sizeof a p) a2 = Inr a'"
    by (rule bindE)
  from gen_frame_valueNode[OF vn] gen_frame_copy[OF c] "3.IH"[OF vn refl c rest]
  show ?case by (blast intro: gen_frame_trans)
qed

lemma gen_frame_cachedValue:
  assumes "gen_frame a a'" "cachedValue a v = Some n"
  shows "cachedValue a' v = Some n"
proof (cases "lookupLocal (localval a) v")
  case None
  with assms(2) have "globalval a v = Some n" by (simp add: cachedValue_def)
  with assms(1) have "globalval a' v = Some n"
    by (auto simp: gen_frame_def map_le_def dom_def)
  with None assms(1) show ?thesis by (simp add: cachedValue_def gen_frame_def)
next
  case (Some k)
  with assms show ?thesis by (simp add: cachedValue_def gen_frame_def)
qed

section \<open>The header invariant through the generator\<close>

text \<open>A step keeps the invariant \<open>headers_ok\<close> of the node table.\<close>

definition keeps_headers :: "analysis \<Rightarrow> analysis \<Rightarrow> bool" where
  "keeps_headers a a' \<longleftrightarrow> (headers_ok (nodes a) \<longrightarrow> headers_ok (nodes a'))"

lemma kh_refl [simp]: "keeps_headers a a"
  by (simp add: keeps_headers_def)

lemma kh_trans: "keeps_headers a b \<Longrightarrow> keeps_headers b c \<Longrightarrow> keeps_headers a c"
  by (simp add: keeps_headers_def)

lemma kh_same_nodes: "nodes a' = nodes a \<Longrightarrow> keeps_headers a a'"
  by (simp add: keeps_headers_def)

lemma kh_upd [simp]:
  "keeps_headers a (constraints_update f2 b) = keeps_headers a b"
  "keeps_headers a (cgnodes_update f3 b) = keeps_headers a b"
  "keeps_headers a (genq_update f4 b) = keeps_headers a b"
  "keeps_headers a (globalval_update f5 b) = keeps_headers a b"
  "keeps_headers a (globalobj_update f6 b) = keeps_headers a b"
  "keeps_headers a (localval_update f7 b) = keeps_headers a b"
  "keeps_headers a (localobj_update f8 b) = keeps_headers a b"
  "keeps_headers a (res_queries_update f9 b) = keeps_headers a b"
  "keeps_headers a (sites_update f10 b) = keeps_headers a b"
  "keeps_headers a (probes_update f11 b) = keeps_headers a b"
  "keeps_headers a (printed_update f12 b) = keeps_headers a b"
  "keeps_headers a (res_warnings_update f13 b) = keeps_headers a b"
  "keeps_headers a (rtypes_update f14 b) = keeps_headers a b"
  "keeps_headers a (reflectZeros_update f15 b) = keeps_headers a b"
  "keeps_headers a (work_update f16 b) = keeps_headers a b"
  by (simp_all add: keeps_headers_def)

lemma nodes_copy: "copy d s n a = Inr a' \<Longrightarrow> nodes a' = nodes a"
  by (auto simp: copy_def copy_loop_eq split: if_splits)

lemma nodes_load: "load d s off n a = Inr a' \<Longrightarrow> nodes a' = nodes a"
  by (auto simp: load_def load_loop_eq split: if_splits)

lemma nodes_store: "store d s off n a = Inr a' \<Longrightarrow> nodes a' = nodes a"
  by (auto simp: store_def store_loop_eq split: if_splits)

lemma nodes_addressOf: "addressOf n obj a = Inr a' \<Longrightarrow> nodes a' = nodes a"
  by (auto simp: addressOf_def addConstraint_def split: if_splits)

lemma kh_copy: "copy d s n a = Inr a' \<Longrightarrow> keeps_headers a a'"
  by (rule kh_same_nodes) (rule nodes_copy)

lemma kh_load: "load d s off n a = Inr a' \<Longrightarrow> keeps_headers a a'"
  by (rule kh_same_nodes) (rule nodes_load)

lemma kh_store: "store d s off n a = Inr a' \<Longrightarrow> keeps_headers a a'"
  by (rule kh_same_nodes) (rule nodes_store)

lemma kh_addressOf: "addressOf n obj a = Inr a' \<Longrightarrow> keeps_headers a a'"
  by (rule kh_same_nodes) (rule nodes_addressOf)

lemma kh_addNodes: "keeps_headers a (snd (addNodes t c a))"
  by (simp add: keeps_headers_def headers_ok_addNodes)

lemma kh_addOneNode: "keeps_headers a (snd (addOneNode t c sub a))"
  by (simp add: keeps_headers_def headers_ok_addOneNode)

lemma kh_makeTagged: "makeTagged t cgn d a = Inr (n, a') \<Longrightarrow> keeps_headers a a'"
  by (auto simp: keeps_headers_def intro: headers_ok_makeTagged)

lemma kh_makeFunctionObject: "makeFunctionObject fn cs a = Inr (n, a') \<Longrightarrow> keeps_headers a a'"
  by (auto simp: keeps_headers_def intro: headers_ok_makeFunctionObject)

lemma kh_makeRtype: "makeRtype T a = Inr (n, a') \<Longrightarrow> keeps_headers a a'"
  by (auto simp: keeps_headers_def intro: headers_ok_makeRtype)

lemma kh_objectNode_global: "objectNode_global v a = Inr (n, a') \<Longrightarrow> keeps_headers a a'"
  by (auto simp: keeps_headers_def intro: headers_ok_objectNode_global)

lemma kh_newObject:
  "keeps_headers a (a\<lparr>nodes := installHeader (length (nodes a)) cgn d (nodes a @ map fieldNode fis)\<rparr>)"
  by (simp add: keeps_headers_def headers_ok_newObject)

lemma kh_alloc:
  "endObject (nextNode a) cgn d (snd (addNodes t c a)) = Inr a' \<Longrightarrow> keeps_headers a a'"
  by (auto simp: nextNode_def endObject_addNodes kh_newObject)

lemma kh_alloc2:
  assumes "endObject (nextNode a) cgn d (snd (addNodes t2 c2 (snd (addNodes t1 c1 a)))) = Inr a'"
  shows "keeps_headers a a'"
proof -
  have "a' = a\<lparr>nodes := installHeader (length (nodes a)) cgn d
      (nodes a @ map fieldNode (flatten a t1 @ flatten a t2))\<rparr>"
    using assms by (simp add: nextNode_def endObject_eq addNodes_eq)
  then show ?thesis
    using kh_newObject[of a cgn d "flatten a t1 @ flatten a t2"] by simp
qed

text \<open>
  An object made from the result of \<open>addNodes\<close>: when the type has no nodes the id is 0
  and the \<open>addressOf\<close> that follows panics.
\<close>

lemma addNodes_endObject_Inr:
  assumes "(let (obj, a3) = addNodes t c a
            in (case endObject obj cgn d a3 of
                  Inl e \<Rightarrow> Inl e
                | Inr a4 \<Rightarrow> f obj a4)) = Inr r"
  shows "f (if flatten a t = [] then 0 else length (nodes a))
           (a\<lparr>nodes := installHeader (if flatten a t = [] then 0 else length (nodes a)) cgn d
                          (nodes a @ map fieldNode (flatten a t))\<rparr>) = Inr r"
  using assms by (simp add: addNodes_eq endObject_eq split: if_splits)

lemma kh_addNodes_endObject_addressOf:
  assumes "(let (obj, a3) = addNodes t c a
            in (case endObject obj cgn d a3 of
                  Inl e \<Rightarrow> Inl e
                | Inr a4 \<Rightarrow> addressOf res obj a4)) = Inr a'"
  shows "keeps_headers a a'"
proof (cases "flatten a t = []")
  case True
  with addNodes_endObject_Inr[OF assms] show ?thesis by (simp add: addressOf_def split: if_splits)
next
  case False
  with addNodes_endObject_Inr[OF assms]
  have "addressOf res (length (nodes a))
          (a\<lparr>nodes := installHeader (length (nodes a)) cgn d
                          (nodes a @ map fieldNode (flatten a t))\<rparr>) = Inr a'"
    by simp
  from kh_addressOf[OF this] kh_newObject[of a cgn d "flatten a t"] show ?thesis
    by (rule kh_trans[rotated])
qed

lemma kh_mutual:
  "\<forall>obj a'. objectNode_local cgn v a = Inr (obj, a') \<longrightarrow> keeps_headers a a'"
  "\<forall>n a'. valueNode v2 a2 = Inr (n, a') \<longrightarrow> keeps_headers a2 a'"
  "\<forall>a'. setValueNode v3 n3 cgn3 a3 = Inr a' \<longrightarrow> keeps_headers a3 a'"
  "\<forall>a'. genLoad cgn4 r4 ptr4 off4 sz4 a4 = Inr a' \<longrightarrow> keeps_headers a4 a'"
  "\<forall>a'. methodNodes fs a5 = Inr a' \<longrightarrow> keeps_headers a5 a'"
proof (induction cgn v a and v2 a2 and v3 n3 cgn3 a3 and cgn4 r4 ptr4 off4 sz4 a4 and fs a5
    rule: objectNode_local_valueNode_setValueNode_genLoad_methodNodes.induct)
  case (1 cgn v a)
  show ?case
  proof (intro allI impI)
    fix obj a'
    assume res: "objectNode_local cgn v a = Inr (obj, a')"
    show "keeps_headers a a'"
    proof (cases "lookupLocal (localobj a) v")
      case (Some n)
      with res show ?thesis by (simp add: objectNode_local.simps[of cgn v a])
    next
      case None
      note eq = res[unfolded objectNode_local.simps[of cgn v a], simplified None, simplified]
      show ?thesis
      proof (cases "vkind v")
        case KAlloc
        with eq show ?thesis
          by (auto split: option.splits sum.splits dest!: kh_alloc)
      next
        case KMakeSlice
        with eq show ?thesis
          by (auto split: option.splits sum.splits dest!: kh_alloc)
      next
        case KMakeChan
        with eq show ?thesis
          by (auto split: option.splits sum.splits gotype.splits dest!: kh_alloc)
      next
        case KMakeMap
        with eq show ?thesis
          by (auto split: option.splits sum.splits gotype.splits dest!: kh_alloc2)
      next
        case (KMakeInterface x)
        from eq KMakeInterface obtain a1 ob a2 xn a3 a4 where
          m: "methodNodes (method_funcs (prog a) (vtype x)) a = Inr a1" and
          t: "makeTagged (vtype x) (Some cgn) (DataValue v) a1 = Inr (ob, a2)" and
          vn: "valueNode x a2 = Inr (xn, a3)" and
          c: "xn \<noteq> 0 \<and> copy (ob + 1) xn (sizeof a3 (vtype x)) a3 = Inr a4 \<or> xn = 0 \<and> a4 = a3" and
          a': "keeps_headers a a' = keeps_headers a a4"
          by (auto split: option.splits sum.splits if_splits)
        from "1.IH"(1)[OF None KMakeInterface] m have f1: "keeps_headers a a1" by simp
        from t have f2: "keeps_headers a1 a2" by (rule kh_makeTagged)
        from "1.IH"(2)[OF None KMakeInterface m t refl] vn have f3: "keeps_headers a2 a3" by simp
        from c have f4: "keeps_headers a3 a4" by (auto dest: kh_copy)
        from f1 f2 f3 f4 a' show ?thesis by (blast intro: kh_trans)
      next
        case (KFieldAddr x f)
        from eq KFieldAddr obtain xobj a1 where
          r: "objectNode_local cgn x a = Inr (xobj, a1)" and a': "keeps_headers a a' = keeps_headers a a1"
          by (auto split: option.splits sum.splits if_splits)
        from "1.IH"(3)[OF None KFieldAddr] r a' show ?thesis by simp
      next
        case (KIndexAddr x)
        from eq KIndexAddr obtain xobj a1 where
          r: "objectNode_local cgn x a = Inr (xobj, a1)" and a': "keeps_headers a a' = keeps_headers a a1"
          by (auto split: option.splits sum.splits if_splits)
        from "1.IH"(4)[OF None KIndexAddr] r a' show ?thesis by simp
      next
        case (KSlice x)
        from eq KSlice obtain xobj a1 where
          r: "objectNode_local cgn x a = Inr (xobj, a1)" and a': "keeps_headers a a' = keeps_headers a a1"
          by (auto split: option.splits sum.splits if_splits)
        from "1.IH"(5)[OF None KSlice] r a' show ?thesis by simp
      qed (use eq in \<open>auto split: option.splits\<close>)
    qed
  qed
next
  case (2 v a)
  show ?case
  proof (intro allI impI)
    fix n a'
    assume res: "valueNode v a = Inr (n, a')"
    show "keeps_headers a a'"
    proof (cases "cachedValue a v")
      case (Some k)
      with res show ?thesis by (simp add: valueNode.simps[of v a])
    next
      case None
      from res None obtain obj a2 a3 where
        g: "objectNode_global v (snd (addOneNode (vtype v) [] None a)) = Inr (obj, a2)" and
        ad: "(if obj \<noteq> 0 then addressOf (nextNode a) obj a2 else Inr a2) = Inr a3" and
        s: "setValueNode v (nextNode a) None a3 = Inr a'"
        by (auto simp: valueNode.simps[of v a] split: sum.splits)
      have f1: "keeps_headers a (snd (addOneNode (vtype v) [] None a))" by (rule kh_addOneNode)
      from g have f2: "keeps_headers (snd (addOneNode (vtype v) [] None a)) a2"
        by (rule kh_objectNode_global)
      from ad have f3: "keeps_headers a2 a3" by (auto split: if_splits dest: kh_addressOf)
      from "2.IH"[OF None g refl ad] s have f4: "keeps_headers a3 a'" by simp
      from f1 f2 f3 f4 show ?thesis by (blast intro: kh_trans)
    qed
  qed
next
  case (3 v n cgn a)
  show ?case
  proof (intro allI impI)
    fix a'
    assume res: "setValueNode v n cgn a = Inr a'"
    from res[unfolded setValueNode.simps[of v n cgn a]] obtain a1 where
      b: "(if cgn \<noteq> None
            then case localval a of None \<Rightarrow> Inl NilMapWrite
                 | Some m \<Rightarrow> Inr (a\<lparr>localval := Some (m(v \<mapsto> n))\<rparr>)
            else Inr (a\<lparr>globalval := (globalval a)(v \<mapsto> n)\<rparr>)) = Inr a1" and
      eq: "(case cfg_queries a1 v of
             None \<Rightarrow> Inr a1
           | Some indirect \<Rightarrow>
               (case (if indirect
                      then (case genLoad cgn (fst (addNodes (vtype v) ''query.indirect'' a1)) v 0
                                   (sizeof a1 (vtype v)) (snd (addNodes (vtype v) ''query.indirect'' a1)) of
                              Inl e \<Rightarrow> Inl e
                            | Inr a3 \<Rightarrow> Inr (fst (addNodes (vtype v) ''query.indirect'' a1), a3))
                      else Inr (n, a1)) of
                  Inl e \<Rightarrow> Inl e
                | Inr (n', a4) \<Rightarrow>
                    Inr (a4\<lparr>res_queries := (res_queries a4)(v := res_queries a4 v @ [(cgn, n')])\<rparr>))) = Inr a'"
      by (rule bindE)
    from b have "nodes a1 = nodes a" by (auto split: if_splits option.splits)
    then have f1: "keeps_headers a a1" by (rule kh_same_nodes)
    show "keeps_headers a a'"
    proof (cases "cfg_queries a1 v")
      case None
      with eq f1 show ?thesis by simp
    next
      case (Some indirect)
      show ?thesis
      proof (cases indirect)
        case True
        from eq Some True obtain a3 where
          l: "genLoad cgn (fst (addNodes (vtype v) ''query.indirect'' a1)) v 0
                (sizeof a1 (vtype v)) (snd (addNodes (vtype v) ''query.indirect'' a1)) = Inr a3" and
          a': "keeps_headers a a' = keeps_headers a a3"
          by (auto split: sum.splits)
        from "3.IH"[OF b Some True] l
        have f3: "keeps_headers (snd (addNodes (vtype v) ''query.indirect'' a1)) a3"
          by simp
        have f2: "keeps_headers a1 (snd (addNodes (vtype v) ''query.indirect'' a1))"
          by (rule kh_addNodes)
        from f1 f2 f3 a' show ?thesis by (blast intro: kh_trans)
      next
        case False
        with eq Some f1 show ?thesis by auto
      qed
    qed
  qed
next
  case (4 cgn result ptr offset sz a)
  show ?case
  proof (intro allI impI)
    fix a'
    assume res: "genLoad cgn result ptr offset sz a = Inr a'"
    from res obtain obj a1 where
      o: "(case cgn of None \<Rightarrow> objectNode_global ptr a | Some c \<Rightarrow> objectNode_local c ptr a) = Inr (obj, a1)" and
      r: "(if obj \<noteq> 0 then copy result (add32 obj offset) sz a1
           else (case valueNode ptr a1 of Inl e \<Rightarrow> Inl e
                 | Inr (src, a2) \<Rightarrow> load result src offset sz a2)) = Inr a'"
      by (auto simp: genLoad.simps[of cgn result ptr offset sz a] split: sum.splits)
    have f1: "keeps_headers a a1"
    proof (cases cgn)
      case None
      with o show ?thesis by (auto dest: kh_objectNode_global)
    next
      case (Some c)
      with "4.IH"(1)[OF Some] o show ?thesis by simp
    qed
    show "keeps_headers a a'"
    proof (cases "obj = 0")
      case False
      with r have "keeps_headers a1 a'" by (auto dest: kh_copy)
      with f1 show ?thesis by (rule kh_trans)
    next
      case True
      with r obtain src a2 where vn: "valueNode ptr a1 = Inr (src, a2)"
        and l: "load result src offset sz a2 = Inr a'"
        by (auto split: sum.splits)
      from "4.IH"(2)[OF o refl] True vn have f2: "keeps_headers a1 a2" by simp
      from l have f3: "keeps_headers a2 a'" by (rule kh_load)
      from f1 f2 f3 show ?thesis by (blast intro: kh_trans)
    qed
  qed
next
  case (5 a)
  show ?case by simp
next
  case (6 f fs a)
  show ?case
  proof (intro allI impI)
    fix a'
    assume res: "methodNodes (f # fs) a = Inr a'"
    then obtain n a1 where vn: "valueNode (funcValue f) a = Inr (n, a1)"
      and m: "methodNodes fs a1 = Inr a'"
      by (auto split: sum.splits)
    from "6.IH"(1) vn have f1: "keeps_headers a a1" by simp
    from "6.IH"(2)[OF vn refl] m have f2: "keeps_headers a1 a'" by simp
    from f1 f2 show "keeps_headers a a'" by (rule kh_trans)
  qed
qed


lemma kh_valueNode: "valueNode v a = Inr (n, a') \<Longrightarrow> keeps_headers a a'"
  using kh_mutual(2) by blast

lemma kh_objectNode_local: "objectNode_local c v a = Inr (obj, a') \<Longrightarrow> keeps_headers a a'"
  using kh_mutual(1) by blast

lemma kh_setValueNode: "setValueNode v n cgn a = Inr a' \<Longrightarrow> keeps_headers a a'"
  using kh_mutual(3) by blast

lemma kh_genLoad: "genLoad cgn r ptr off sz a = Inr a' \<Longrightarrow> keeps_headers a a'"
  using kh_mutual(4) by blast

lemma kh_objectNode: "objectNode cgn v a = Inr (obj, a') \<Longrightarrow> keeps_headers a a'"
  by (cases cgn) (auto simp: objectNode_def dest: kh_objectNode_global kh_objectNode_local)

lemma kh_genStore:
  assumes "genStore cgn ptr val off sz a = Inr a'"
  shows "keeps_headers a a'"
proof -
  from assms[unfolded genStore_def] obtain obj a1 where
    o: "objectNode cgn ptr a = Inr (obj, a1)" and
    r: "(if obj \<noteq> 0 then copy (add32 obj off) val sz a1
         else (case valueNode ptr a1 of Inl e \<Rightarrow> Inl e
               | Inr (dst, a2) \<Rightarrow> store dst val off sz a2)) = Inr a'"
    by (rule bind2E)
  from o have f1: "keeps_headers a a1" by (rule kh_objectNode)
  show ?thesis
  proof (cases "obj = 0")
    case False
    with r have "keeps_headers a1 a'" by (auto dest: kh_copy)
    with f1 show ?thesis by (rule kh_trans)
  next
    case True
    with r have "(case valueNode ptr a1 of Inl e \<Rightarrow> Inl e
               | Inr (dst, a2) \<Rightarrow> store dst val off sz a2) = Inr a'" by simp
    then obtain dst a2 where vn: "valueNode ptr a1 = Inr (dst, a2)"
      and st: "store dst val off sz a2 = Inr a'"
      by (rule bind2E)
    from f1 kh_valueNode[OF vn] kh_store[OF st] show ?thesis
      by (blast intro: kh_trans)
  qed
qed

lemma kh_copyElems:
  assumes "copyElems cgn t dst src a = Inr a'"
  shows "keeps_headers a a'"
proof -
  from assms have "(case genLoad cgn (fst (addNodes t ''copy'' a)) src 1
        (sizeof (snd (addNodes t ''copy'' a)) t) (snd (addNodes t ''copy'' a)) of
           Inl e \<Rightarrow> Inl e
         | Inr a2 \<Rightarrow> genStore cgn dst (fst (addNodes t ''copy'' a)) 1
              (sizeof (snd (addNodes t ''copy'' a)) t) a2) = Inr a'"
    by (simp add: copyElems_def Let_def split_beta)
  then obtain a2 where
    l: "genLoad cgn (fst (addNodes t ''copy'' a)) src 1
        (sizeof (snd (addNodes t ''copy'' a)) t) (snd (addNodes t ''copy'' a)) = Inr a2" and
    st: "genStore cgn dst (fst (addNodes t ''copy'' a)) 1
              (sizeof (snd (addNodes t ''copy'' a)) t) a2 = Inr a'"
    by (rule bindE)
  from kh_addNodes[of a t "''copy''"] kh_genLoad[OF l] kh_genStore[OF st]
  show ?thesis by (blast intro: kh_trans)
qed

lemma kh_copyActuals: "copyActuals ps args params a = Inr a' \<Longrightarrow> keeps_headers a a'"
proof (induction ps args params a rule: copyActuals.induct)
  case (1 ps params a)
  then show ?case by simp
next
  case (2 arg args params a)
  then show ?case by simp
next
  case (3 p ps arg args params a)
  from "3.prems" obtain n a1 where vn: "valueNode arg a = Inr (n, a1)"
    and r: "(case copy params n (sizeof a p) a1 of
             Inl e \<Rightarrow> Inl e
           | Inr a2 \<Rightarrow> copyActuals ps args (params + sizeof a p) a2) = Inr a'"
    unfolding copyActuals.simps by (rule bind2E)
  from r obtain a2 where c: "copy params n (sizeof a p) a1 = Inr a2"
    and rest: "copyActuals ps args (params + sizeof a p) a2 = Inr a'"
    by (rule bindE)
  from kh_valueNode[OF vn] kh_copy[OF c] "3.IH"[OF vn refl c rest]
  show ?case by (blast intro: kh_trans)
qed


lemma kh_upd_left [simp]:
  "keeps_headers (res_warnings_update f13 a) b = keeps_headers a b"
  "keeps_headers (probes_update f11 a) b = keeps_headers a b"
  "keeps_headers (printed_update f12 a) b = keeps_headers a b"
  "keeps_headers (constraints_update f2 a) b = keeps_headers a b"
  "keeps_headers (reflectZeros_update f15 a) b = keeps_headers a b"
  by (simp_all add: keeps_headers_def)

lemma kh_warnf [simp]: "keeps_headers (warnf p m a) b = keeps_headers a b"
  by (simp add: warnf_def)

lemma kh_case_addNodes_endObject_addressOf:
  assumes "(case addNodes t c a of
              (obj, a3) \<Rightarrow>
                (case endObject obj cgn d a3 of
                   Inl e \<Rightarrow> Inl e
                 | Inr a4 \<Rightarrow> addressOf res obj a4)) = Inr a'"
  shows "keeps_headers a a'"
  using assms kh_addNodes_endObject_addressOf[where t=t and c=c and a=a and cgn=cgn and d=d and res=res and a'=a']
  by simp

lemma kh_genConv:
  assumes "genConv conv cgn a = Inr a'"
  shows "keeps_headers a a'"
  using assms[unfolded genConv_def]
proof (rule bind2E, goal_cases)
  case (1 res a1)
  from 1(2) have "keeps_headers a1 a'"
    by (auto simp: Let_def split: if_splits vkind.splits gotype.splits option.splits
        dest!: kh_case_addNodes_endObject_addressOf)
  with kh_valueNode[OF 1(1)] show ?case by (rule kh_trans)
qed

lemma kh_genAppend:
  assumes "genAppend instr cgn a = Inr a'"
  shows "keeps_headers a a'"
proof (cases "callArgs instr")
  case Nil
  with assms show ?thesis by (simp add: genAppend_def)
next
  case (Cons x rest)
  from assms[unfolded genAppend_def Cons list.case] show ?thesis
  proof (rule bind2E, goal_cases)
    case (1 zn a1)
    note f1 = kh_valueNode[OF 1(1)]
    from 1(2) show ?case
    proof (rule bind2E, goal_cases)
      case (1 xn a2)
      note f2 = kh_valueNode[OF 1(1)]
      from 1(2) show ?case
      proof (rule bindE, goal_cases)
        case (1 a3)
        note f3 = kh_copy[OF 1(1)]
        show ?case
        proof (cases rest)
          case Nil
          with 1(2) have "a' = a3" by simp
          with f1 f2 f3 show ?thesis by (blast intro: kh_trans)
        next
          case (Cons y ys)
          from 1(2)[unfolded Cons list.case] show ?thesis
          proof (rule bindOptE, goal_cases)
            case (1 tArray)
            from 1(2) show ?case
            proof (rule bindE, goal_cases)
              case (1 a4)
              note f4 = kh_alloc[OF 1(1)]
              from 1(2) show ?case
              proof (rule bindE, goal_cases)
                case (1 a5)
                note f5 = kh_copyElems[OF 1(1)]
                from 1(2) show ?case
                proof (rule bind2E, goal_cases)
                  case (1 zn' a6)
                  from f1 f2 f3 f4 f5 kh_valueNode[OF 1(1)] kh_addressOf[OF 1(2)]
                  show ?case by (blast intro: kh_trans)
                qed
              qed
            qed
          qed
        qed
      qed
    qed
  qed
qed


section \<open>C2: the context-sensitivity policy of static calls\<close>

text \<open>
  The policy in the words of the specification: a function is cloned per call site when
  it is an intrinsic, or a synthetic wrapper, or short and simple (a single block, at
  most 10 instructions, no call other than to a built-in).
\<close>

definition policy_spec :: "analysis \<Rightarrow> ssa_value \<Rightarrow> bool" where
  "policy_spec a fn \<longleftrightarrow>
     is_intrinsic (prog a) fn \<or> fnSynthetic fn \<noteq> [] \<or>
     (case fn_blocks (prog a) fn of
        Some [blk] \<Rightarrow> length blk \<le> 10 \<and> \<not> list_ex isCallToNonBuiltin blk
      | _ \<Rightarrow> False)"

text \<open>
  A program with a short accessor \<open>main.get\<close> (one block of one instruction) and a
  synthetic bound-method wrapper of two blocks, and a state with one call site.
\<close>

definition ex_getter :: ssa_value where
  "ex_getter = Val ''main.get'' (Signature None [] []) (KFunction [] (Some ''main''))"

definition ex_wrapper :: ssa_value where
  "ex_wrapper = Val ''main.T.m$bound'' (Signature None [] [])
                  (KFunction ''bound method wrapper'' (Some ''main''))"

definition ex_static :: analysis where
  "ex_static =
     ex0\<lparr>prog := ex_prog\<lparr>fn_blocks :=
             (\<lambda>f. if f = ex_getter then Some [[IOther]]
                  else if f = ex_wrapper then Some [[IOther], [IOther]] else None)\<rparr>,
         sites := [\<lparr>cs_targets = 0, cs_instr = None\<rparr>]\<rparr>"

lemma ctx_cgnodes_sites [simp]: "ctx_cgnodes (sites_update f a) = ctx_cgnodes a"
  by (simp add: ctx_cgnodes_def)

lemma gen_frame_D:
  assumes "gen_frame a a'"
  shows "static_part a' = static_part a" "ctx_cgnodes a' = ctx_cgnodes a"
    "extends (nodes a) (nodes a')" "extends (constraints a) (constraints a')"
    "localval a' = localval a" "globalval a \<subseteq>\<^sub>m globalval a'" "globalobj a \<subseteq>\<^sub>m globalobj a'"
  using assms by (simp_all add: gen_frame_def)

lemma map_le_Some: "m \<subseteq>\<^sub>m m' \<Longrightarrow> m k = Some v \<Longrightarrow> m' k = Some v"
  by (auto simp: map_le_def dom_def)

lemma extends_set: "extends xs ys \<Longrightarrow> x \<in> set xs \<Longrightarrow> x \<in> set ys"
  by (auto simp: extends_iff)

text \<open>The steps of a successful \<open>genStaticCall\<close>.\<close>

lemma genStaticCall_stages:
  assumes res: "genStaticCall caller site call result a = Inr a'"
    and callee: "staticCallee call = Some fn"
  obtains obj a1 a3 a8 where
    "(if shouldUseContext a fn then makeFunctionObject fn (Some site) a
      else objectNode None fn a) = Inr (obj, a1)"
    "addressOf (length (nodes a1)) obj
       (snd (addOneNode (underlying (vtype (cvalue call))) ''call.targets'' None a1)) = Inr a3"
    "gen_frame a3 a8"
    "keeps_headers a3 a8"
    "a' = a8\<lparr>sites := (sites a8)[site := (sites a8 ! site)\<lparr>cs_targets := length (nodes a1)\<rparr>]\<rparr>"
proof -
  note r0 = res[unfolded genStaticCall_def callee, simplified]
  from r0 obtain obj a1 where
    o: "(if shouldUseContext a fn then makeFunctionObject fn (Some site) a
         else objectNode None fn a) = Inr (obj, a1)" and
    r1: "(case callSignature call of
            None \<Rightarrow> Inl TypeAssertFail
          | Some (recv, ps, rs) \<Rightarrow>
              let (targets, a2) = addOneNode (underlying (vtype (cvalue call))) ''call.targets'' None a1
              in (case addressOf targets obj a2 of
                    Inl e \<Rightarrow> Inl e
                  | Inr a3 \<Rightarrow>
                      (case funcParams obj a3 of
                         Inl e \<Rightarrow> Inl e
                       | Inr params \<Rightarrow>
                           (case (case recv of
                                    None \<Rightarrow> Inr (params, cargs call, a3)
                                  | Some r \<Rightarrow>
                                      (case cargs call of
                                         [] \<Rightarrow> Inl IndexOutOfRange
                                       | arg0 # args \<Rightarrow>
                                           (case valueNode arg0 a3 of
                                              Inl e \<Rightarrow> Inl e
                                            | Inr (n, a4) \<Rightarrow>
                                                (case copy params n (sizeof a3 r) a4 of
                                                   Inl e \<Rightarrow> Inl e
                                                 | Inr a5 \<Rightarrow> Inr (params + sizeof a3 r, args, a5))))) of
                              Inl e \<Rightarrow> Inl e
                            | Inr (params', args, a6) \<Rightarrow>
                                (case copyActuals ps args params' a6 of
                                   Inl e \<Rightarrow> Inl e
                                 | Inr a7 \<Rightarrow>
                                     (case (if result \<noteq> 0
                                            then (case funcResults obj a7 of
                                                    Inl e \<Rightarrow> Inl e
                                                  | Inr r \<Rightarrow> copy result r (sizeof a7 (Tuple rs)) a7)
                                            else Inr a7) of
                                        Inl e \<Rightarrow> Inl e
                                      | Inr a8 \<Rightarrow>
                                          Inr (a8\<lparr>sites := (sites a8)[site := (sites a8 ! site)
                                                  \<lparr>cs_targets := targets\<rparr>]\<rparr>))))))) = Inr a'"
    by (rule bind2E)
  from r1 obtain sg where sg: "callSignature call = Some sg" by (cases "callSignature call") auto
  obtain recv ps rs where sg': "sg = (recv, ps, rs)" by (cases sg) auto
  define a2 where "a2 = snd (addOneNode (underlying (vtype (cvalue call))) ''call.targets'' None a1)"
  note r2 = r1[unfolded sg sg', simplified, unfolded addOneNode_eq, simplified,
      folded addOneNode_eq[of "underlying (vtype (cvalue call))" "''call.targets''" None a1, THEN arg_cong[of _ _ snd], simplified],
      folded a2_def]
  from r2 obtain a3 where
    ad: "addressOf (length (nodes a1)) obj a2 = Inr a3" and
    r3: "(case funcParams obj a3 of
            Inl e \<Rightarrow> Inl e
          | Inr params \<Rightarrow>
              (case (case recv of
                       None \<Rightarrow> Inr (params, cargs call, a3)
                     | Some r \<Rightarrow>
                         (case cargs call of
                            [] \<Rightarrow> Inl IndexOutOfRange
                          | arg0 # args \<Rightarrow>
                              (case valueNode arg0 a3 of
                                 Inl e \<Rightarrow> Inl e
                               | Inr (n, a4) \<Rightarrow>
                                   (case copy params n (sizeof a3 r) a4 of
                                      Inl e \<Rightarrow> Inl e
                                    | Inr a5 \<Rightarrow> Inr (params + sizeof a3 r, args, a5))))) of
                 Inl e \<Rightarrow> Inl e
               | Inr (params', args, a6) \<Rightarrow>
                   (case copyActuals ps args params' a6 of
                      Inl e \<Rightarrow> Inl e
                    | Inr a7 \<Rightarrow>
                        (case (if result \<noteq> 0
                               then (case funcResults obj a7 of
                                       Inl e \<Rightarrow> Inl e
                                     | Inr r \<Rightarrow> copy result r (sizeof a7 (Tuple rs)) a7)
                               else Inr a7) of
                           Inl e \<Rightarrow> Inl e
                         | Inr a8 \<Rightarrow>
                             Inr (a8\<lparr>sites := (sites a8)[site := (sites a8 ! site)
                                     \<lparr>cs_targets := length (nodes a1)\<rparr>]\<rparr>))))) = Inr a'"
    by (rule bindE)
  from r3 obtain params where
    r4p: "(case (case recv of
                       None \<Rightarrow> Inr (params, cargs call, a3)
                     | Some r \<Rightarrow>
                         (case cargs call of
                            [] \<Rightarrow> Inl IndexOutOfRange
                          | arg0 # args \<Rightarrow>
                              (case valueNode arg0 a3 of
                                 Inl e \<Rightarrow> Inl e
                               | Inr (n, a4) \<Rightarrow>
                                   (case copy params n (sizeof a3 r) a4 of
                                      Inl e \<Rightarrow> Inl e
                                    | Inr a5 \<Rightarrow> Inr (params + sizeof a3 r, args, a5))))) of
                 Inl e \<Rightarrow> Inl e
               | Inr (params', args, a6) \<Rightarrow>
                   (case copyActuals ps args params' a6 of
                      Inl e \<Rightarrow> Inl e
                    | Inr a7 \<Rightarrow>
                        (case (if result \<noteq> 0
                               then (case funcResults obj a7 of
                                       Inl e \<Rightarrow> Inl e
                                     | Inr r \<Rightarrow> copy result r (sizeof a7 (Tuple rs)) a7)
                               else Inr a7) of
                           Inl e \<Rightarrow> Inl e
                         | Inr a8 \<Rightarrow>
                             Inr (a8\<lparr>sites := (sites a8)[site := (sites a8 ! site)
                                     \<lparr>cs_targets := length (nodes a1)\<rparr>]\<rparr>)))) = Inr a'"
    by (rule bindE)
  note r4 = r4p[unfolded case_prod_beta]
  from r4 obtain y where
    rc: "(case recv of
            None \<Rightarrow> Inr (params, cargs call, a3)
          | Some r \<Rightarrow>
              (case cargs call of
                 [] \<Rightarrow> Inl IndexOutOfRange
               | arg0 # args \<Rightarrow>
                   (case valueNode arg0 a3 of
                      Inl e \<Rightarrow> Inl e
                    | Inr nx \<Rightarrow>
                        (case copy params (fst nx) (sizeof a3 r) (snd nx) of
                           Inl e \<Rightarrow> Inl e
                         | Inr a5 \<Rightarrow> Inr (params + sizeof a3 r, args, a5))))) = Inr y" and
    r5: "(case copyActuals ps (fst (snd y)) (fst y) (snd (snd y)) of
            Inl e \<Rightarrow> Inl e
          | Inr a7 \<Rightarrow>
              (case (if result \<noteq> 0
                     then (case funcResults obj a7 of
                             Inl e \<Rightarrow> Inl e
                           | Inr r \<Rightarrow> copy result r (sizeof a7 (Tuple rs)) a7)
                     else Inr a7) of
                 Inl e \<Rightarrow> Inl e
               | Inr a8 \<Rightarrow>
                   Inr (a8\<lparr>sites := (sites a8)[site := (sites a8 ! site)
                           \<lparr>cs_targets := length (nodes a1)\<rparr>]\<rparr>))) = Inr a'"
    by (rule bindE)
  have f6: "gen_frame a3 (snd (snd y)) \<and> keeps_headers a3 (snd (snd y))"
  proof (cases recv)
    case None
    with rc show ?thesis by auto
  next
    case (Some r)
    with rc obtain arg0 args where "cargs call = arg0 # args"
      by (cases "cargs call") auto
    with rc Some have "(case valueNode arg0 a3 of
                      Inl e \<Rightarrow> Inl e
                    | Inr nx \<Rightarrow>
                        (case copy params (fst nx) (sizeof a3 r) (snd nx) of
                           Inl e \<Rightarrow> Inl e
                         | Inr a5 \<Rightarrow> Inr (params + sizeof a3 r, args, a5))) = Inr y"
      by simp
    then obtain nx where vn: "valueNode arg0 a3 = Inr nx"
      and c: "(case copy params (fst nx) (sizeof a3 r) (snd nx) of
                           Inl e \<Rightarrow> Inl e
                         | Inr a5 \<Rightarrow> Inr (params + sizeof a3 r, args, a5)) = Inr y"
      by (rule bindE)
    from c obtain a5 where c5: "copy params (fst nx) (sizeof a3 r) (snd nx) = Inr a5"
      and y: "Inr (params + sizeof a3 r, args, a5) = (Inr y :: error + nat \<times> ssa_value list \<times> analysis)"
      by (rule bindE)
    from y have "snd (snd y) = a5" by auto
    moreover from vn have "valueNode arg0 a3 = Inr (fst nx, snd nx)" by simp
    ultimately show ?thesis
      using gen_frame_copy[OF c5] kh_copy[OF c5]
      by (blast intro: gen_frame_trans kh_trans dest: gen_frame_valueNode kh_valueNode)
  qed
  from r5 obtain a7 where
    ca: "copyActuals ps (fst (snd y)) (fst y) (snd (snd y)) = Inr a7" and
    r6: "(case (if result \<noteq> 0
                then (case funcResults obj a7 of
                        Inl e \<Rightarrow> Inl e
                      | Inr r \<Rightarrow> copy result r (sizeof a7 (Tuple rs)) a7)
                else Inr a7) of
            Inl e \<Rightarrow> Inl e
          | Inr a8 \<Rightarrow>
              Inr (a8\<lparr>sites := (sites a8)[site := (sites a8 ! site)
                      \<lparr>cs_targets := length (nodes a1)\<rparr>]\<rparr>)) = Inr a'"
    by (rule bindE)
  from r6 obtain a8 where
    rs: "(if result \<noteq> 0
          then (case funcResults obj a7 of
                  Inl e \<Rightarrow> Inl e
                | Inr r \<Rightarrow> copy result r (sizeof a7 (Tuple rs)) a7)
          else Inr a7) = Inr a8" and
    a': "Inr (a8\<lparr>sites := (sites a8)[site := (sites a8 ! site)
                      \<lparr>cs_targets := length (nodes a1)\<rparr>]\<rparr>) = (Inr a' :: error + analysis)"
    by (rule bindE)
  have f8: "gen_frame a7 a8 \<and> keeps_headers a7 a8"
  proof (cases "result = 0")
    case True
    with rs show ?thesis by simp
  next
    case False
    with rs obtain r where "copy result r (sizeof a7 (Tuple rs)) a7 = Inr a8"
      by (auto elim: bindE)
    then show ?thesis by (simp add: gen_frame_copy kh_copy)
  qed
  from f6 gen_frame_copyActuals[OF ca] f8 have "gen_frame a3 a8"
    by (blast intro: gen_frame_trans)
  moreover from f6 kh_copyActuals[OF ca] f8 have "keeps_headers a3 a8"
    by (blast intro: kh_trans)
  ultimately show thesis using o ad a' that by (simp add: a2_def)
qed

lemma funcObjectNodes_header:
  assumes "sigParts (vtype fn) \<noteq> None"
  shows "\<exists>h. n_obj (funcObjectNodes a fn cs ! length (nodes a)) = Some h \<and>
           o_cgn h = Some \<lparr>cg_fn = fn, cg_obj = length (nodes a), cg_callersite = cs\<rparr> \<and>
           o_data h = DataValue fn \<and> otFunction \<in> o_flags h"
  using assms
  by (auto simp: funcObjectNodes_def Let_def installHeader_fresh nth_append list_update_append)

lemma objectNode_global_cached:
  assumes "objectNode_global v a = Inr (obj, a')"
  shows "globalobj a' v = Some obj \<and> (\<forall>k. globalobj a v = Some k \<longrightarrow> obj = k)"
  using objectNode_global_shape[OF assms] by (elim disjE conjE exE) simp_all

lemma shouldUseContext_iff:
  "shouldUseContext a fn \<longleftrightarrow>
      is_intrinsic (prog a) fn \<or>
      (\<exists>blk. fn_blocks (prog a) fn = Some [blk] \<and> length blk \<le> 10 \<and>
         (fnSynthetic fn \<noteq> [] \<and>
            (\<forall>pkg. fnPkg fn = Some pkg \<longrightarrow> pkg_func (prog a) pkg ''init'' \<noteq> Some fn) \<or>
          \<not> list_ex isCallToNonBuiltin blk))"
  by (auto simp: shouldUseContext_def split: option.splits list.splits)

lemma genStaticCall_contour:
  assumes res: "genStaticCall caller site call result a = Inr a'"
    and callee: "staticCallee call = Some fn"
  shows "if shouldUseContext a fn
       then ctx_cgnodes a' =
              ctx_cgnodes a @ [\<lparr>cg_fn = fn, cg_obj = length (nodes a), cg_callersite = Some site\<rparr>] \<and>
            (\<exists>h. n_obj (nodes a' ! length (nodes a)) = Some h \<and>
                 o_cgn h = Some \<lparr>cg_fn = fn, cg_obj = length (nodes a), cg_callersite = Some site\<rparr> \<and>
                 o_data h = DataValue fn \<and> otFunction \<in> o_flags h) \<and>
            (\<exists>targets. AddrC targets (length (nodes a)) \<in> set (constraints a') \<and>
                 (site < length (sites a) \<longrightarrow> cs_targets (sites a' ! site) = targets))
       else ctx_cgnodes a' = ctx_cgnodes a \<and>
            (\<exists>obj. globalobj a' fn = Some obj \<and> (\<forall>k. globalobj a fn = Some k \<longrightarrow> obj = k) \<and>
               (\<exists>targets. AddrC targets obj \<in> set (constraints a') \<and>
                 (site < length (sites a) \<longrightarrow> cs_targets (sites a' ! site) = targets)))"
proof -
  from res callee obtain obj a1 a3 a8 where
    o: "(if shouldUseContext a fn then makeFunctionObject fn (Some site) a
         else objectNode None fn a) = Inr (obj, a1)" and
    ad: "addressOf (length (nodes a1)) obj
       (snd (addOneNode (underlying (vtype (cvalue call))) ''call.targets'' None a1)) = Inr a3" and
    f: "gen_frame a3 a8" and
    k: "keeps_headers a3 a8" and
    a': "a' = a8\<lparr>sites := (sites a8)[site := (sites a8 ! site)\<lparr>cs_targets := length (nodes a1)\<rparr>]\<rparr>"
    by (rule genStaticCall_stages)
  define a2 where "a2 = snd (addOneNode (underlying (vtype (cvalue call))) ''call.targets'' None a1)"
  have f12: "gen_frame a1 a2" unfolding a2_def by (rule gen_frame_addOneNode)
  have f23: "gen_frame a2 a3" using ad unfolding a2_def by (rule gen_frame_addressOf)
  have f18: "gen_frame a1 a8" using f12 f23 f by (blast intro: gen_frame_trans)
  have "AddrC (length (nodes a1)) obj \<in> set (constraints a3)"
    using ad by (auto simp: addressOf_def addConstraint_def split: if_splits)
  then have c8: "AddrC (length (nodes a1)) obj \<in> set (constraints a8)"
    using gen_frame_D(4)[OF f] by (rule extends_set[rotated])
  have s8: "sites a8 = sites a1" using static_partD(7)[OF gen_frame_D(1)[OF f18]] .
  show ?thesis
  proof (cases "shouldUseContext a fn")
    case True
    with o have mk: "makeFunctionObject fn (Some site) a = Inr (obj, a1)" by simp
    then have sp: "sigParts (vtype fn) \<noteq> None" and obj: "obj = length (nodes a)"
      and a1: "a1 = a\<lparr>cgnodes := cgnodes a @ [\<lparr>cg_fn = fn, cg_obj = length (nodes a), cg_callersite = Some site\<rparr>],
                 nodes := funcObjectNodes a fn (Some site),
                 genq := genq a @ [\<lparr>cg_fn = fn, cg_obj = length (nodes a), cg_callersite = Some site\<rparr>]\<rparr>"
      by (auto simp: makeFunctionObject_eq split: if_splits)
    from sp obtain p where "sigParts (vtype fn) = Some p" by auto
    from length_funcObjectNodes[OF this, of a "Some site"] a1
    have lt: "length (nodes a) < length (nodes a1)" by simp
    have "nodes a8 ! length (nodes a) = nodes a1 ! length (nodes a)"
      using gen_frame_D(3)[OF f18] lt by (rule extends_nth)
    with funcObjectNodes_header[OF sp, of a "Some site"] a1
    have hd: "\<exists>h. n_obj (nodes a8 ! length (nodes a)) = Some h \<and>
                 o_cgn h = Some \<lparr>cg_fn = fn, cg_obj = length (nodes a), cg_callersite = Some site\<rparr> \<and>
                 o_data h = DataValue fn \<and> otFunction \<in> o_flags h"
      by simp
    have cx: "ctx_cgnodes a8 =
        ctx_cgnodes a @ [\<lparr>cg_fn = fn, cg_obj = length (nodes a), cg_callersite = Some site\<rparr>]"
      using gen_frame_D(2)[OF f18] a1 by (simp add: ctx_cgnodes_def)
    have s1: "sites a1 = sites a" using a1 by simp
    have tg: "\<exists>targets. AddrC targets (length (nodes a)) \<in> set (constraints a') \<and>
                 (site < length (sites a) \<longrightarrow> cs_targets (sites a' ! site) = targets)"
      using c8 by (intro exI[of _ "length (nodes a1)"]) (simp add: a' obj s8 s1)
    from True cx hd tg show ?thesis by (simp add: a')
  next
    case False
    with o have on: "objectNode_global fn a = Inr (obj, a1)" by (simp add: objectNode_def)
    from gen_frame_objectNode_global[OF on] f18 have f08: "gen_frame a a8"
      by (rule gen_frame_trans)
    have s1: "sites a1 = sites a"
      using static_partD(7)[OF gen_frame_D(1)[OF gen_frame_objectNode_global[OF on]]] .
    from objectNode_global_cached[OF on] have g1: "globalobj a1 fn = Some obj"
      and same: "\<forall>k. globalobj a fn = Some k \<longrightarrow> obj = k" by simp_all
    from map_le_Some[OF gen_frame_D(7)[OF f18] g1] have g8: "globalobj a8 fn = Some obj" .
    have "\<exists>obj. globalobj a' fn = Some obj \<and> (\<forall>k. globalobj a fn = Some k \<longrightarrow> obj = k) \<and>
               (\<exists>targets. AddrC targets obj \<in> set (constraints a') \<and>
                 (site < length (sites a) \<longrightarrow> cs_targets (sites a' ! site) = targets))"
      using c8 g8 same
      by (intro exI[of _ obj] conjI exI[of _ "length (nodes a1)"]) (simp_all add: a' s8 s1)
    with False gen_frame_D(2)[OF f08] show ?thesis by (simp add: a')
  qed
qed

text \<open>
  C2 (amended). \<open>shouldUseContext\<close> holds exactly for an intrinsic and for a function of
  a single block of at most 10 instructions that is either synthetic (and not the
  initializer \<open>init\<close> of its package) or makes no call other than to built-ins: the
  limits on blocks and instructions apply to synthetic wrappers too. A successful
  \<open>genStaticCall\<close> to the callee \<open>fn\<close> makes, when \<open>shouldUseContext\<close> holds, exactly one new
  contour of the call site, whose function object is the fresh block at the old end of the
  node table, and points the targets node of the site to it; otherwise it makes no
  contour of a call site and points the targets node to the one shared object of \<open>fn\<close>
  (the object cached in \<open>globalobj\<close>, reused when it exists).
\<close>

theorem static_call_contour_policy:
  "(shouldUseContext a fn \<longleftrightarrow>
      is_intrinsic (prog a) fn \<or>
      (\<exists>blk. fn_blocks (prog a) fn = Some [blk] \<and> length blk \<le> 10 \<and>
         (fnSynthetic fn \<noteq> [] \<and>
            (\<forall>pkg. fnPkg fn = Some pkg \<longrightarrow> pkg_func (prog a) pkg ''init'' \<noteq> Some fn) \<or>
          \<not> list_ex isCallToNonBuiltin blk))) \<and>
   (\<forall>a'. staticCallee call = Some fn \<and> genStaticCall caller site call result a = Inr a' \<longrightarrow>
      (if shouldUseContext a fn
       then ctx_cgnodes a' =
              ctx_cgnodes a @ [\<lparr>cg_fn = fn, cg_obj = length (nodes a), cg_callersite = Some site\<rparr>] \<and>
            (\<exists>h. n_obj (nodes a' ! length (nodes a)) = Some h \<and>
                 o_cgn h = Some \<lparr>cg_fn = fn, cg_obj = length (nodes a), cg_callersite = Some site\<rparr> \<and>
                 o_data h = DataValue fn \<and> otFunction \<in> o_flags h) \<and>
            (\<exists>targets. AddrC targets (length (nodes a)) \<in> set (constraints a') \<and>
                 (site < length (sites a) \<longrightarrow> cs_targets (sites a' ! site) = targets))
       else ctx_cgnodes a' = ctx_cgnodes a \<and>
            (\<exists>obj. globalobj a' fn = Some obj \<and> (\<forall>k. globalobj a fn = Some k \<longrightarrow> obj = k) \<and>
               (\<exists>targets. AddrC targets obj \<in> set (constraints a') \<and>
                 (site < length (sites a) \<longrightarrow> cs_targets (sites a' ! site) = targets)))))"
  using shouldUseContext_iff[of a fn] genStaticCall_contour[of caller site call result a _ fn]
  by blast

lemma ex_static_fields:
  "nodes ex_static = nodes ex0" "constraints ex_static = []" "cgnodes ex_static = []"
  "genq ex_static = []" "globalobj ex_static = Map.empty" "flatten ex_static = flat1"
  "sites ex_static = [\<lparr>cs_targets = 0, cs_instr = None\<rparr>]"
  "is_intrinsic (prog ex_static) = (\<lambda>f. False)"
  "fn_blocks (prog ex_static) =
     (\<lambda>f. if f = ex_getter then Some [[IOther]]
          else if f = ex_wrapper then Some [[IOther], [IOther]] else None)"
  "pkg_func (prog ex_static) = (\<lambda>p n. None)"
  by (simp_all add: ex_static_def ex0_def ex_prog_def)

lemma ex_getter_neq: "ex_getter \<noteq> ex_wrapper"
  by (simp add: ex_getter_def ex_wrapper_def)

lemma ex_should_getter: "shouldUseContext ex_static ex_getter"
  by (simp add: shouldUseContext_def ex_static_fields isCallToNonBuiltin_def common_def)

lemma ex_should_wrapper: "\<not> shouldUseContext ex_static ex_wrapper"
  using ex_getter_neq by (simp add: shouldUseContext_def ex_static_fields)

lemma ex_funcObjectNodes:
  "vtype fn = Signature None [] [] \<Longrightarrow>
   funcObjectNodes ex_static fn cs =
     nodes ex0 @ [\<lparr>n_typ = Signature None [] [], n_subelement = None,
        n_obj = Some \<lparr>o_size = 1, o_cgn = Some \<lparr>cg_fn = fn, cg_obj = 2, cg_callersite = cs\<rparr>,
                      o_data = DataValue fn, o_flags = {otFunction}\<rparr>, n_pts = {}\<rparr>]"
  by (simp add: funcObjectNodes_def Let_def installHeader_def sigParts_def ex_static_fields
      flat1_def ex0_nodes eval_nat_numeral)

lemma ex_call_getter:
  "\<exists>a'. genStaticCall ex_cg 0 (CallCommon ex_getter None []) 0 ex_static = Inr a' \<and>
        cgnodes a' = [\<lparr>cg_fn = ex_getter, cg_obj = 2, cg_callersite = Some 0\<rparr>] \<and>
        constraints a' = [AddrC 3 2] \<and> sites a' = [\<lparr>cs_targets = 3, cs_instr = None\<rparr>]"
  using ex_should_getter
  by (simp add: genStaticCall_def staticCallee_def ex_getter_def[THEN arg_cong[of _ _ vkind], simplified]
      ex_getter_def[THEN arg_cong[of _ _ vtype], simplified]
      makeFunctionObject_eq ex_funcObjectNodes sigParts_def callSignature_def addOneNode_eq
      addressOf_def addConstraint_def funcParams_def ex_static_fields ex0_nodes nth_append)

lemma ex_call_wrapper:
  "\<exists>a'. genStaticCall ex_cg 0 (CallCommon ex_wrapper None []) 0 ex_static = Inr a' \<and>
        cgnodes a' = [\<lparr>cg_fn = ex_wrapper, cg_obj = 2, cg_callersite = None\<rparr>] \<and>
        constraints a' = [AddrC 3 2] \<and> sites a' = [\<lparr>cs_targets = 3, cs_instr = None\<rparr>]"
  using ex_should_wrapper
  by (simp add: genStaticCall_def staticCallee_def ex_wrapper_def[THEN arg_cong[of _ _ vkind], simplified]
      ex_wrapper_def[THEN arg_cong[of _ _ vtype], simplified] objectNode_def objectNode_global_def
      makeFunctionObject_eq ex_funcObjectNodes sigParts_def callSignature_def addOneNode_eq
      addressOf_def addConstraint_def funcParams_def ex_static_fields ex0_nodes nth_append)

theorem static_call_contour_policy_witness:
  "shouldUseContext ex_static ex_getter \<and>
   (\<exists>a'. genStaticCall ex_cg 0 (CallCommon ex_getter None []) 0 ex_static = Inr a' \<and>
      ctx_cgnodes a' = [\<lparr>cg_fn = ex_getter, cg_obj = 2, cg_callersite = Some 0\<rparr>]) \<and>
   (\<exists>a'. genStaticCall ex_cg 0 (CallCommon ex_wrapper None []) 0 ex_static = Inr a' \<and>
      ctx_cgnodes a' = [] \<and> globalobj a' ex_wrapper \<noteq> None)"
proof (intro conjI)
  show "shouldUseContext ex_static ex_getter" by (rule ex_should_getter)
next
  from ex_call_getter obtain a' where
    r: "genStaticCall ex_cg 0 (CallCommon ex_getter None []) 0 ex_static = Inr a'" by blast
  have c: "staticCallee (CallCommon ex_getter None []) = Some ex_getter"
    by (simp add: staticCallee_def ex_getter_def)
  from static_call_contour_policy[where a = ex_static and fn = ex_getter
      and call = "CallCommon ex_getter None []" and caller = ex_cg and site = 0 and result = 0,
      THEN conjunct2, rule_format, of a'] c r ex_should_getter
  have "ctx_cgnodes a' = [\<lparr>cg_fn = ex_getter, cg_obj = 2, cg_callersite = Some 0\<rparr>]"
    by (simp add: ctx_cgnodes_def ex_static_fields ex0_nodes)
  with r show "\<exists>a'. genStaticCall ex_cg 0 (CallCommon ex_getter None []) 0 ex_static = Inr a' \<and>
      ctx_cgnodes a' = [\<lparr>cg_fn = ex_getter, cg_obj = 2, cg_callersite = Some 0\<rparr>]"
    by blast
next
  from ex_call_wrapper obtain a' where
    r: "genStaticCall ex_cg 0 (CallCommon ex_wrapper None []) 0 ex_static = Inr a'" by blast
  have c: "staticCallee (CallCommon ex_wrapper None []) = Some ex_wrapper"
    by (simp add: staticCallee_def ex_wrapper_def)
  from static_call_contour_policy[where a = ex_static and fn = ex_wrapper
      and call = "CallCommon ex_wrapper None []" and caller = ex_cg and site = 0 and result = 0,
      THEN conjunct2, rule_format, of a'] c r ex_should_wrapper
  have "ctx_cgnodes a' = [] \<and> globalobj a' ex_wrapper \<noteq> None"
    by (auto simp: ctx_cgnodes_def ex_static_fields)
  with r show "\<exists>a'. genStaticCall ex_cg 0 (CallCommon ex_wrapper None []) 0 ex_static = Inr a' \<and>
      ctx_cgnodes a' = [] \<and> globalobj a' ex_wrapper \<noteq> None"
    by blast
qed

text \<open>
  The claim as worded fails: a synthetic wrapper of two blocks satisfies the policy of
  the specification, yet \<open>shouldUseContext\<close> rejects it and the static call to it uses
  the shared contour (the only call-graph node made has no call site).
\<close>

theorem synthetic_wrapper_shares_contour:
  "policy_spec ex_static ex_wrapper \<and> \<not> shouldUseContext ex_static ex_wrapper \<and>
   (\<exists>a'. genStaticCall ex_cg 0 (CallCommon ex_wrapper None []) 0 ex_static = Inr a' \<and>
      cgnodes a' = [\<lparr>cg_fn = ex_wrapper, cg_obj = 2, cg_callersite = None\<rparr>])"
proof (intro conjI)
  show "policy_spec ex_static ex_wrapper"
    by (simp add: policy_spec_def fnSynthetic_def ex_wrapper_def)
  show "\<not> shouldUseContext ex_static ex_wrapper" by (rule ex_should_wrapper)
  from ex_call_wrapper
  show "\<exists>a'. genStaticCall ex_cg 0 (CallCommon ex_wrapper None []) 0 ex_static = Inr a' \<and>
      cgnodes a' = [\<lparr>cg_fn = ex_wrapper, cg_obj = 2, cg_callersite = None\<rparr>]"
    by blast
qed

section \<open>The header invariant through calls, built-ins and reflection\<close>

lemma kh_genStaticCall:
  assumes "genStaticCall caller site call result a = Inr a'"
  shows "keeps_headers a a'"
proof (cases "staticCallee call")
  case None
  with assms show ?thesis by (simp add: genStaticCall_def)
next
  case (Some fn)
  from assms Some obtain obj a1 a3 a8 where
    o: "(if shouldUseContext a fn then makeFunctionObject fn (Some site) a
         else objectNode None fn a) = Inr (obj, a1)" and
    ad: "addressOf (length (nodes a1)) obj
       (snd (addOneNode (underlying (vtype (cvalue call))) ''call.targets'' None a1)) = Inr a3" and
    f: "gen_frame a3 a8" and
    k: "keeps_headers a3 a8" and
    a': "a' = a8\<lparr>sites := (sites a8)[site := (sites a8 ! site)\<lparr>cs_targets := length (nodes a1)\<rparr>]\<rparr>"
    by (rule genStaticCall_stages)
  from o have k1: "keeps_headers a a1"
    by (auto split: if_splits dest: kh_makeFunctionObject kh_objectNode)
  from k1 kh_addOneNode[of a1 "underlying (vtype (cvalue call))" "''call.targets''" None]
    kh_addressOf[OF ad] k
  have "keeps_headers a a8" by (blast intro: kh_trans)
  then show ?thesis by (simp add: a')
qed

lemma kh_genBuiltinCall:
  assumes "genBuiltinCall instr cgn a = Inr a'"
  shows "keeps_headers a a'"
proof -
  from assms obtain call where c: "common instr = Some call" and k: "vkind (cvalue call) = KBuiltin"
    by (auto simp: genBuiltinCall_def split: option.splits vkind.splits)
  note r = assms[unfolded genBuiltinCall_def c option.case k vkind.case]
  consider (app) "vname (cvalue call) = ''append''"
    | (copy) "vname (cvalue call) = ''copy''"
    | (panic) "vname (cvalue call) = ''panic''"
    | (recover) "vname (cvalue call) = ''recover''"
    | (print) "vname (cvalue call) = ''print''"
    | (other) "vname (cvalue call) \<noteq> ''append''" "vname (cvalue call) \<noteq> ''copy''"
        "vname (cvalue call) \<noteq> ''panic''" "vname (cvalue call) \<noteq> ''recover''"
        "vname (cvalue call) \<noteq> ''print''"
    by blast
  then show ?thesis
  proof cases
    case app
    with r show ?thesis by (auto split: instruction.splits dest: kh_genAppend)
  next
    case copy
    with r show ?thesis by (auto split: list.splits gotype.splits dest: kh_copyElems)
  next
    case panic
    with r have "(case cargs call of
                    [] \<Rightarrow> Inl IndexOutOfRange
                  | a0 # ys \<Rightarrow>
                      (case valueNode a0 a of
                         Inl e \<Rightarrow> Inl e
                       | Inr (n, a1) \<Rightarrow> copy (panicNode a1) n 1 a1)) = Inr a'"
      by simp
    then obtain a0 n a1 where "valueNode a0 a = Inr (n, a1)" "copy (panicNode a1) n 1 a1 = Inr a'"
      by (auto split: list.splits sum.splits)
    then show ?thesis by (blast intro: kh_trans dest: kh_valueNode kh_copy)
  next
    case recover
    with r have "(case instrValue instr of
                    None \<Rightarrow> Inr a
                  | Some v \<Rightarrow>
                      (case valueNode v a of
                         Inl e \<Rightarrow> Inl e
                       | Inr (n, a1) \<Rightarrow> copy n (panicNode a1) 1 a1)) = Inr a'"
      by simp
    then have "a' = a \<or> (\<exists>v n a1. valueNode v a = Inr (n, a1) \<and> copy n (panicNode a1) 1 a1 = Inr a')"
      by (auto split: option.splits sum.splits)
    then show ?thesis by (auto intro: kh_trans dest: kh_valueNode kh_copy)
  next
    case print
    show ?thesis
    proof (cases "cfg_print a")
      case False
      with r print show ?thesis by simp
    next
      case True
      with r print obtain a0 ys where args: "cargs call = a0 # ys"
        by (cases "cargs call") auto
      define a1 where "a1 = (if (case probes a instr of None \<Rightarrow> 0 | Some p \<Rightarrow> p) = 0
            then (snd (addNodes (vtype a0) ''print'' a))
                   \<lparr>probes := (probes a)(instr \<mapsto> fst (addNodes (vtype a0) ''print'' a)),
                     printed := printed a @ [(instr, fst (addNodes (vtype a0) ''print'' a))]\<rparr>
            else a)"
      have k1: "keeps_headers a a1"
        using kh_addNodes[of a "vtype a0" "''print''"] by (simp add: a1_def)
      from r print True args obtain probe' n a2 where
        "valueNode a0 a1 = Inr (n, a2)" "copy probe' n (sizeof a2 (vtype a0)) a2 = Inr a'"
        by (auto simp: Let_def a1_def addNodes_eq split: if_splits sum.splits)
      from k1 kh_valueNode[OF this(1)] kh_copy[OF this(2)] show ?thesis
        by (blast intro: kh_trans)
    qed
  next
    case other
    with r show ?thesis by simp
  qed
qed

lemma kh_addLabel: "addLabel ptr label a = Inr (c, a') \<Longrightarrow> keeps_headers a a'"
  by (auto simp: addLabel_def keeps_headers_def split: if_splits intro!: headers_ok_update)

lemma kh_reflectTypeOf_loop:
  "reflectTypeOf_loop result delta changed a = Inr (c, a') \<Longrightarrow> keeps_headers a a'"
proof (induction delta arbitrary: changed a)
  case Nil
  then show ?case by simp
next
  case (Cons iObj delta)
  from Cons.prems obtain T n a1 c1 a2 where
    "makeRtype T a = Inr (n, a1)" "addLabel result n a1 = Inr (c1, a2)"
    "reflectTypeOf_loop result delta (changed \<or> c1) a2 = Inr (c, a')"
    by (auto split: sum.splits option.splits prod.splits)
  from kh_makeRtype[OF this(1)] kh_addLabel[OF this(2)] Cons.IH[OF this(3)]
  show ?case by (blast intro: kh_trans)
qed

lemma kh_reflectZero_loop:
  "reflectZero_loop cgn result delta changed a = Inr (c, a') \<Longrightarrow> keeps_headers a a'"
proof (induction delta arbitrary: changed a)
  case Nil
  then show ?case by simp
next
  case (Cons typObj delta)
  from Cons.prems obtain T n a1 c1 a3 where
    "makeTagged T (Some cgn) DataNil a = Inr (n, a1)"
    "addLabel result n (a1\<lparr>reflectZeros := (reflectZeros a1)(T \<mapsto> n)\<rparr>) = Inr (c1, a3)"
    "reflectZero_loop cgn result delta (changed \<or> c1) a3 = Inr (c, a')"
    by (auto split: sum.splits prod.splits)
  from kh_makeTagged[OF this(1)] kh_addLabel[OF this(2), unfolded kh_upd_left] Cons.IH[OF this(3)]
  show ?case by (blast intro: kh_trans)
qed

lemma kh_solve_reflect: "solve_reflect con delta a = Inr a' \<Longrightarrow> keeps_headers a a'"
  by (cases con)
     (auto simp: solve_reflect_def reflectTypeOf_solve_def reflectZero_solve_def addWork_def
       split: sum.splits if_splits dest: kh_reflectTypeOf_loop kh_reflectZero_loop)

lemma kh_generate_osArgs:
  assumes "generate_osArgs a = Inr a'"
  shows "keeps_headers a a'"
proof (cases "imported_package (prog a) ''os''")
  case None
  with assms show ?thesis by (simp add: generate_osArgs_def)
next
  case (Some os)
  note r = addNodes_endObject_Inr[OF assms[unfolded generate_osArgs_def Some option.case]]
  define obj where "obj = (if flatten a (Array (Basic BString) 1) = [] then 0 else length (nodes a))"
  define a2 where "a2 = a\<lparr>nodes := installHeader obj None (DataString ''<command-line args>'')
        (nodes a @ map fieldNode (flatten a (Array (Basic BString) 1)))\<rparr>"
  from r have "(case pkg_var (prog a2) os ''Args'' of
                     None \<Rightarrow> Inl NilDeref
                   | Some g \<Rightarrow>
                       (case objectNode None g a2 of
                          Inl e \<Rightarrow> Inl e
                        | Inr (gobj, a3) \<Rightarrow> addressOf gobj obj a3)) = Inr a'"
    unfolding obj_def a2_def .
  then obtain g gobj a3 where on: "objectNode None g a2 = Inr (gobj, a3)"
    and ad: "addressOf gobj obj a3 = Inr a'"
    by (auto split: option.splits sum.splits)
  from ad have "obj \<noteq> 0" by (auto simp: addressOf_def split: if_splits)
  then have "obj = length (nodes a)" by (auto simp: obj_def split: if_splits)
  then have "keeps_headers a a2" unfolding a2_def by (simp add: kh_newObject)
  with kh_objectNode[OF on] kh_addressOf[OF ad] show ?thesis by (blast intro: kh_trans)
qed

section \<open>C8: the header invariant is kept by every operation that creates nodes or objects\<close>

lemma kh_D: "keeps_headers a a' \<Longrightarrow> headers_ok (nodes a) \<Longrightarrow> headers_ok (nodes a')"
  by (simp add: keeps_headers_def)

lemma kh_methodNodes: "methodNodes fs a = Inr a' \<Longrightarrow> keeps_headers a a'"
  using kh_mutual(5) by blast

lemma headers_ok_orFlags: "headers_ok (nodes a) \<Longrightarrow> headers_ok (nodes (orFlags k f a))"
  by (simp add: orFlags_eq headers_ok_flags)

text \<open>
  C8. Every node is created without a header (\<open>addOneNode\<close> appends one node whose \<open>obj\<close>
  is nil), and \<open>endObject\<close> changes no node but the one at \<open>obj\<close>, where it installs the
  header. The invariant \<open>headers_ok\<close> (the block \<open>[h, h + size)\<close> of a header at \<open>h\<close> lies
  in the table and carries no header except at \<open>h\<close>) is kept by \<open>addOneNode\<close> and
  \<open>addNodes\<close>, by \<open>endObject\<close> called on the start of a fresh block, by \<open>orFlags\<close> and
  \<open>addLabel\<close>, and by every successful run of an operation that creates objects:
  \<open>makeTagged\<close>, \<open>makeFunctionObject\<close>, \<open>makeRtype\<close>, \<open>objectNode\<close> for global objects and
  for the objects of a contour, \<open>valueNode\<close>, \<open>setValueNode\<close>, \<open>genLoad\<close>, \<open>genStore\<close>,
  \<open>copyElems\<close>, the copying of actual parameters, \<open>genConv\<close>, \<open>genAppend\<close>,
  \<open>genBuiltinCall\<close>, \<open>genStaticCall\<close>, the \<open>solve\<close> rules of the reflection constraints
  and the last block of \<open>generate\<close>; the operations that only create constraints
  (\<open>copy\<close>, \<open>load\<close>, \<open>store\<close>, \<open>addressOf\<close>) leave the node table as it is.
\<close>

theorem header_on_first_node_only:
  "headers_ok (nodes a) \<Longrightarrow>
     nodes (snd (addOneNode t c sub a)) =
       nodes a @ [\<lparr>n_typ = t, n_subelement = sub, n_obj = None, n_pts = {}\<rparr>] \<and>
     headers_ok (nodes (snd (addOneNode t c sub a))) \<and>
     headers_ok (nodes (snd (addNodes t c a))) \<and>
     (\<forall>a'. endObject obj cgn d a = Inr a' \<longrightarrow>
        (\<forall>i. i < length (nodes a') \<and> i \<noteq> obj \<longrightarrow> i < length (nodes a) \<and> nodes a' ! i = nodes a ! i) \<and>
        (\<exists>hdr. n_obj (nodes a' ! obj) = Some hdr \<and> o_size hdr = length (nodes a) - obj) \<and>
        (block_start (nodes a) obj \<longrightarrow> headers_ok (nodes a'))) \<and>
     (\<forall>n a'. makeTagged t cgn d a = Inr (n, a') \<longrightarrow> headers_ok (nodes a')) \<and>
     (\<forall>n a'. makeFunctionObject fn cs a = Inr (n, a') \<longrightarrow> headers_ok (nodes a')) \<and>
     (\<forall>n a'. makeRtype T a = Inr (n, a') \<longrightarrow> headers_ok (nodes a')) \<and>
     (\<forall>n a'. objectNode None v a = Inr (n, a') \<longrightarrow> headers_ok (nodes a')) \<and>
     (\<forall>cg w n a'. objectNode cg w a = Inr (n, a') \<longrightarrow> headers_ok (nodes a')) \<and>
     (\<forall>w n a'. valueNode w a = Inr (n, a') \<longrightarrow> headers_ok (nodes a')) \<and>
     (\<forall>w n cg a'. setValueNode w n cg a = Inr a' \<longrightarrow> headers_ok (nodes a')) \<and>
     (\<forall>fs a'. methodNodes fs a = Inr a' \<longrightarrow> headers_ok (nodes a')) \<and>
     (\<forall>cg r ptr off sz a'. genLoad cg r ptr off sz a = Inr a' \<longrightarrow> headers_ok (nodes a')) \<and>
     (\<forall>cg ptr val off sz a'. genStore cg ptr val off sz a = Inr a' \<longrightarrow> headers_ok (nodes a')) \<and>
     (\<forall>cg te dst src a'. copyElems cg te dst src a = Inr a' \<longrightarrow> headers_ok (nodes a')) \<and>
     (\<forall>ps args params a'. copyActuals ps args params a = Inr a' \<longrightarrow> headers_ok (nodes a')) \<and>
     (\<forall>conv cg a'. genConv conv cg a = Inr a' \<longrightarrow> headers_ok (nodes a')) \<and>
     (\<forall>instr cg a'. genAppend instr cg a = Inr a' \<longrightarrow> headers_ok (nodes a')) \<and>
     (\<forall>instr cg a'. genBuiltinCall instr cg a = Inr a' \<longrightarrow> headers_ok (nodes a')) \<and>
     (\<forall>caller site call result a'.
        genStaticCall caller site call result a = Inr a' \<longrightarrow> headers_ok (nodes a')) \<and>
     (\<forall>con delta a'. solve_reflect con delta a = Inr a' \<longrightarrow> headers_ok (nodes a')) \<and>
     (\<forall>cg i r delta a'. reflectTypeOf_solve cg i r delta a = Inr a' \<longrightarrow> headers_ok (nodes a')) \<and>
     (\<forall>cg i r delta a'. reflectZero_solve cg i r delta a = Inr a' \<longrightarrow> headers_ok (nodes a')) \<and>
     (\<forall>a'. generate_osArgs a = Inr a' \<longrightarrow> headers_ok (nodes a')) \<and>
     (\<forall>k f. headers_ok (nodes (orFlags k f a))) \<and>
     (\<forall>ptr label ch a'. addLabel ptr label a = Inr (ch, a') \<longrightarrow> headers_ok (nodes a')) \<and>
     (\<forall>dst src sz a'. copy dst src sz a = Inr a' \<longrightarrow> nodes a' = nodes a) \<and>
     (\<forall>dst src off sz a'. load dst src off sz a = Inr a' \<longrightarrow> nodes a' = nodes a) \<and>
     (\<forall>dst src off sz a'. store dst src off sz a = Inr a' \<longrightarrow> nodes a' = nodes a) \<and>
     (\<forall>n ob a'. addressOf n ob a = Inr a' \<longrightarrow> nodes a' = nodes a)"
proof (intro conjI allI impI)
  assume ok: "headers_ok (nodes a)"
  show "nodes (snd (addOneNode t c sub a)) =
       nodes a @ [\<lparr>n_typ = t, n_subelement = sub, n_obj = None, n_pts = {}\<rparr>]"
    by (simp add: addOneNode_eq)
  show "headers_ok (nodes (snd (addOneNode t c sub a)))"
    by (rule headers_ok_addOneNode[OF ok])
  show "headers_ok (nodes (snd (addNodes t c a)))"
    by (rule headers_ok_addNodes[OF ok])
  show "i < length (nodes a)" "nodes a' ! i = nodes a ! i"
    if "endObject obj cgn d a = Inr a'" "i < length (nodes a') \<and> i \<noteq> obj" for a' i
    using endObject_touches_obj_only[of obj cgn d a a' i] that by simp_all
  show "\<exists>hdr. n_obj (nodes a' ! obj) = Some hdr \<and> o_size hdr = length (nodes a) - obj"
    if "endObject obj cgn d a = Inr a'" for a'
    using that by (auto simp: endObject_eq installHeader_def split: if_splits)
  show "headers_ok (nodes a')"
    if "endObject obj cgn d a = Inr a'" "block_start (nodes a) obj" for a'
    by (rule headers_ok_endObject[OF ok that(2,1)])
  show "headers_ok (nodes a')" if "makeTagged t cgn d a = Inr (n, a')" for n a'
    by (rule headers_ok_makeTagged[OF ok that])
  show "headers_ok (nodes a')" if "makeFunctionObject fn cs a = Inr (n, a')" for n a'
    by (rule headers_ok_makeFunctionObject[OF ok that])
  show "headers_ok (nodes a')" if "makeRtype T a = Inr (n, a')" for n a'
    by (rule headers_ok_makeRtype[OF ok that])
  show "headers_ok (nodes a')" if "objectNode None v a = Inr (n, a')" for n a'
    by (rule kh_D[OF kh_objectNode[OF that] ok])
  show "headers_ok (nodes a')" if "objectNode cg w a = Inr (n, a')" for cg w n a'
    by (rule kh_D[OF kh_objectNode[OF that] ok])
  show "headers_ok (nodes a')" if "valueNode w a = Inr (n, a')" for w n a'
    by (rule kh_D[OF kh_valueNode[OF that] ok])
  show "headers_ok (nodes a')" if "setValueNode w n cg a = Inr a'" for w n cg a'
    by (rule kh_D[OF kh_setValueNode[OF that] ok])
  show "headers_ok (nodes a')" if "methodNodes fs a = Inr a'" for fs a'
    by (rule kh_D[OF kh_methodNodes[OF that] ok])
  show "headers_ok (nodes a')" if "genLoad cg r ptr off sz a = Inr a'" for cg r ptr off sz a'
    by (rule kh_D[OF kh_genLoad[OF that] ok])
  show "headers_ok (nodes a')" if "genStore cg ptr val off sz a = Inr a'" for cg ptr val off sz a'
    by (rule kh_D[OF kh_genStore[OF that] ok])
  show "headers_ok (nodes a')" if "copyElems cg te dst src a = Inr a'" for cg te dst src a'
    by (rule kh_D[OF kh_copyElems[OF that] ok])
  show "headers_ok (nodes a')" if "copyActuals ps args params a = Inr a'" for ps args params a'
    by (rule kh_D[OF kh_copyActuals[OF that] ok])
  show "headers_ok (nodes a')" if "genConv conv cg a = Inr a'" for conv cg a'
    by (rule kh_D[OF kh_genConv[OF that] ok])
  show "headers_ok (nodes a')" if "genAppend instr cg a = Inr a'" for instr cg a'
    by (rule kh_D[OF kh_genAppend[OF that] ok])
  show "headers_ok (nodes a')" if "genBuiltinCall instr cg a = Inr a'" for instr cg a'
    by (rule kh_D[OF kh_genBuiltinCall[OF that] ok])
  show "headers_ok (nodes a')" if "genStaticCall caller site call result a = Inr a'"
    for caller site call result a'
    by (rule kh_D[OF kh_genStaticCall[OF that] ok])
  show "headers_ok (nodes a')" if "solve_reflect con delta a = Inr a'" for con delta a'
    by (rule kh_D[OF kh_solve_reflect[OF that] ok])
  show "headers_ok (nodes a')" if "reflectTypeOf_solve cg i r delta a = Inr a'" for cg i r delta a'
    using kh_D[OF kh_solve_reflect[of "ReflectTypeOfC cg i r" delta a a'] ok] that
    by (simp add: solve_reflect_def)
  show "headers_ok (nodes a')" if "reflectZero_solve cg i r delta a = Inr a'" for cg i r delta a'
    using kh_D[OF kh_solve_reflect[of "ReflectZeroC cg i r" delta a a'] ok] that
    by (simp add: solve_reflect_def)
  show "headers_ok (nodes a')" if "generate_osArgs a = Inr a'" for a'
    by (rule kh_D[OF kh_generate_osArgs[OF that] ok])
  show "headers_ok (nodes (orFlags k f a))" for k f
    by (rule headers_ok_orFlags[OF ok])
  show "headers_ok (nodes a')" if "addLabel ptr label a = Inr (ch, a')" for ptr label ch a'
    by (rule kh_D[OF kh_addLabel[OF that] ok])
  show "nodes a' = nodes a" if "copy dst src sz a = Inr a'" for dst src sz a'
    by (rule nodes_copy[OF that])
  show "nodes a' = nodes a" if "load dst src off sz a = Inr a'" for dst src off sz a'
    by (rule nodes_load[OF that])
  show "nodes a' = nodes a" if "store dst src off sz a = Inr a'" for dst src off sz a'
    by (rule nodes_store[OF that])
  show "nodes a' = nodes a" if "addressOf n ob a = Inr a'" for n ob a'
    by (rule nodes_addressOf[OF that])
qed

definition ex_alloc :: ssa_value where
  "ex_alloc = Val ''t0'' (Pointer (Basic BInt)) KAlloc"

lemma ex_objectNode_alloc:
  "objectNode (Some ex_cg) ex_alloc ex0 =
     Inr (2, ex0\<lparr>nodes := nodes ex0 @
                 [\<lparr>n_typ = Basic BInt, n_subelement = Some \<lparr>fi_typ = Basic BInt, fi_path = []\<rparr>,
                   n_obj = Some \<lparr>o_size = 1, o_cgn = Some ex_cg, o_data = DataValue ex_alloc,
                                 o_flags = {}\<rparr>,
                   n_pts = {}\<rparr>],
               localobj := Some [ex_alloc \<mapsto> 2]\<rparr>)"
proof -
  have k: "vkind ex_alloc = KAlloc" "vtype ex_alloc = Pointer (Basic BInt)"
    by (simp_all add: ex_alloc_def)
  have l: "localobj ex0 = Some Map.empty" "flatten ex0 = flat1" "length (nodes ex0) = 2"
    by (simp_all add: ex0_def)
  have e: "endObject (nextNode ex0) (Some ex_cg) (DataValue ex_alloc)
             (snd (addNodes (Basic BInt) ''alloc'' ex0)) =
           Inr (ex0\<lparr>nodes := nodes ex0 @
                 [\<lparr>n_typ = Basic BInt, n_subelement = Some \<lparr>fi_typ = Basic BInt, fi_path = []\<rparr>,
                   n_obj = Some \<lparr>o_size = 1, o_cgn = Some ex_cg, o_data = DataValue ex_alloc,
                                 o_flags = {}\<rparr>,
                   n_pts = {}\<rparr>]\<rparr>)"
    using installHeader_fresh[of "nodes ex0" "Some ex_cg" "DataValue ex_alloc"
        "fieldNode \<lparr>fi_typ = Basic BInt, fi_path = []\<rparr>" "[]"]
    unfolding nextNode_def endObject_addNodes
    by (simp add: l(1,2) flat1_def fieldNode_def)
  show ?thesis
    unfolding objectNode_def option.case objectNode_local.simps[of ex_cg ex_alloc ex0]
    by (simp add: lookupLocal_def l(1,2) k mustDeref_def e) (simp add: nextNode_def l(3))
qed

theorem header_on_first_node_only_witness:
  "headers_ok (nodes ex0) \<and> block_start (nodes ex0) 2 \<and>
   (\<exists>a'. endObject 2 None DataNil ex0 = Inr a' \<and> headers_ok (nodes a') \<and>
         n_obj (nodes a' ! 2) = Some \<lparr>o_size = 0, o_cgn = None, o_data = DataNil, o_flags = {}\<rparr>) \<and>
   (\<exists>a'. makeTagged (Basic BInt) None DataNil ex0 = Inr (2, a') \<and> headers_ok (nodes a') \<and>
         n_obj (nodes a' ! 3) = None) \<and>
   (\<exists>a'. makeRtype (Basic BInt) ex0 = Inr (3, a') \<and> headers_ok (nodes a')) \<and>
   (\<exists>a'. objectNode (Some ex_cg) ex_alloc ex0 = Inr (2, a') \<and> headers_ok (nodes a') \<and>
         n_obj (nodes a' ! 2) =
           Some \<lparr>o_size = 1, o_cgn = Some ex_cg, o_data = DataValue ex_alloc, o_flags = {}\<rparr>)"
proof -
  have bs: "block_start (nodes ex0) 2"
    by (simp add: block_start_def ex0_nodes nth_Cons')
  have fl: "flatten ex0 = flat1" "rtypes ex0 = Map.empty" "reflectRtypePtr ex0 = Some ex_rtypePtr"
    by (simp_all add: ex0_def)
  have e: "endObject 2 None DataNil ex0 =
      Inr (ex0\<lparr>nodes := nodes ex0 @ [\<lparr>n_typ = tInvalid, n_subelement = None,
             n_obj = Some \<lparr>o_size = 0, o_cgn = None, o_data = DataNil, o_flags = {}\<rparr>, n_pts = {}\<rparr>]\<rparr>)"
    by (simp add: endObject_eq ex0_nodes installHeader_def)
  have t: "makeTagged (Basic BInt) None DataNil ex0 =
      Inr (2, ex0\<lparr>nodes := nodes ex0 @ taggedNodes ex0 (Basic BInt) None DataNil\<rparr>)"
    by (simp add: makeTagged_eq ex0_nodes)
  have r: "makeRtype (Basic BInt) ex0 =
     Inr (3, ex0\<lparr>nodes := nodes ex0 @ rtypeNodes ex0 (Basic BInt) ex_rtypePtr,
            constraints := constraints ex0 @ [AddrC 4 2],
            rtypes := (rtypes ex0)(Basic BInt \<mapsto> 3)\<rparr>)"
    using makeRtype_first[of ex0 "Basic BInt" ex_rtypePtr]
    by (simp add: fl flat1_def ex_rtypePtr_def ex0_nodes eval_nat_numeral)
  note th = header_on_first_node_only[OF headers_ok_ex0, where obj = 2 and cgn = None
      and d = DataNil and t = "Basic BInt" and T = "Basic BInt"]
  note c4 = th[THEN conjunct2, THEN conjunct2, THEN conjunct2, THEN conjunct1]
  note c5 = th[THEN conjunct2, THEN conjunct2, THEN conjunct2, THEN conjunct2, THEN conjunct1]
  note c7 = th[THEN conjunct2, THEN conjunct2, THEN conjunct2, THEN conjunct2, THEN conjunct2, THEN conjunct2, THEN conjunct1]
  note c9 = th[THEN conjunct2, THEN conjunct2, THEN conjunct2, THEN conjunct2, THEN conjunct2, THEN conjunct2, THEN conjunct2, THEN conjunct2, THEN conjunct1]
  from c4 e bs
  have 1: "headers_ok (nodes (ex0\<lparr>nodes := nodes ex0 @ [\<lparr>n_typ = tInvalid, n_subelement = None,
             n_obj = Some \<lparr>o_size = 0, o_cgn = None, o_data = DataNil, o_flags = {}\<rparr>, n_pts = {}\<rparr>]\<rparr>))"
    by blast
  from c5 t
  have 2: "headers_ok (nodes (ex0\<lparr>nodes := nodes ex0 @ taggedNodes ex0 (Basic BInt) None DataNil\<rparr>))"
    by blast
  from c7 r
  have 3: "headers_ok (nodes (ex0\<lparr>nodes := nodes ex0 @ rtypeNodes ex0 (Basic BInt) ex_rtypePtr,
            constraints := constraints ex0 @ [AddrC 4 2],
            rtypes := (rtypes ex0)(Basic BInt \<mapsto> 3)\<rparr>))"
    by blast
  have 4: "n_obj ((nodes ex0 @ taggedNodes ex0 (Basic BInt) None DataNil) ! 3) = None"
    by (simp add: ex0_nodes taggedNodes_def fl flat1_def fieldNode_def)
  from c9 ex_objectNode_alloc
  have 5: "headers_ok (nodes (ex0\<lparr>nodes := nodes ex0 @
                 [\<lparr>n_typ = Basic BInt, n_subelement = Some \<lparr>fi_typ = Basic BInt, fi_path = []\<rparr>,
                   n_obj = Some \<lparr>o_size = 1, o_cgn = Some ex_cg, o_data = DataValue ex_alloc,
                                 o_flags = {}\<rparr>,
                   n_pts = {}\<rparr>],
               localobj := Some [ex_alloc \<mapsto> 2]\<rparr>))"
    by blast
  show ?thesis
    using headers_ok_ex0 bs e t r 1 2 3 4 5 ex_objectNode_alloc by (simp add: ex0_nodes)
qed

section \<open>C9: conversions from \<open>unsafe.Pointer\<close> to a pointer\<close>

text \<open>
  The block of a new object of type \<open>t\<close>: the nodes of \<open>t\<close>, the first of them carrying
  the header.
\<close>

definition objectBlock :: "analysis \<Rightarrow> gotype \<Rightarrow> cgnode option \<Rightarrow> objdata \<Rightarrow> node list" where
  "objectBlock a t cgn d =
     (case flatten a t of
        [] \<Rightarrow> []
      | fi # fis \<Rightarrow>
          (fieldNode fi)\<lparr>n_obj := Some \<lparr>o_size = Suc (length fis), o_cgn = cgn, o_data = d, o_flags = {}\<rparr>\<rparr>
          # map fieldNode fis)"

lemma objectBlock_header:
  "flatten a t \<noteq> [] \<Longrightarrow>
   n_obj (hd (objectBlock a t cgn d)) =
     Some \<lparr>o_size = sizeof a t, o_cgn = cgn, o_data = d, o_flags = {}\<rparr>"
  by (cases "flatten a t") (simp_all add: objectBlock_def sizeof_def)

lemma length_objectBlock: "length (objectBlock a t cgn d) = sizeof a t"
  by (cases "flatten a t") (simp_all add: objectBlock_def sizeof_def)

lemma objectBlock_tail_no_header:
  "n \<in> set (tl (objectBlock a t cgn d)) \<Longrightarrow> n_obj n = None"
  by (cases "flatten a t") (auto simp: objectBlock_def fieldNode_def)

lemma addNodes_endObject:
  assumes "flatten a t \<noteq> []"
  shows "(let (obj, a3) = addNodes t c a
          in (case endObject obj cgn d a3 of
                Inl e \<Rightarrow> Inl e
              | Inr a4 \<Rightarrow> f obj a4)) =
         f (length (nodes a)) (a\<lparr>nodes := nodes a @ objectBlock a t cgn d\<rparr>)"
proof -
  obtain fi fis where fl: "flatten a t = fi # fis" using assms by (cases "flatten a t") auto
  show ?thesis
    by (simp add: addNodes_eq endObject_eq fl installHeader_fresh objectBlock_def)
qed

text \<open>
  C9. Let \<open>conv\<close> convert a value of underlying type \<open>unsafe.Pointer\<close> to a type of
  underlying type \<open>*t\<close>, let its value node \<open>res\<close> be nonzero (a pointer has a node) and
  let \<open>t\<close> flatten to at least one node. If the enclosing function has a package, then
  \<open>genConv\<close> returns (the analysis continues), having appended to the node table one new
  object of type \<open>t\<close> owned by the contour \<open>cgn\<close> with the conversion as its data, emitted
  the single constraint \<open>addr\<close> of that object into \<open>res\<close>, and appended one warning with
  the position of the conversion unless the package is \<open>syscall\<close>, the only package on
  the allow-list. (For an enclosing function without a package the code dereferences
  nil.)
\<close>

theorem unsafe_conversion_allocates_and_warns:
  assumes "vkind conv = KConvert x" and "underlying (vtype x) = tUnsafePtr"
    and "underlying (vtype conv) = Pointer t"
    and "valueNode conv a = Inr (res, a1)" and "res \<noteq> 0" and "nodes a \<noteq> []"
    and "flatten a t \<noteq> []"
  shows "(\<forall>path. fnPkg (instr_parent (prog a) conv) = Some path \<longrightarrow>
           genConv conv cgn a =
             Inr (a1\<lparr>res_warnings :=
                        (if path = ''syscall'' then res_warnings a
                         else res_warnings a @
                              [(instr_pos (prog a) conv,
                                UnsafePointerConversion (instr_parent (prog a) conv) (vtype conv))]),
                     nodes := nodes a1 @ objectBlock a t cgn (DataValue conv),
                     constraints := constraints a1 @ [AddrC res (length (nodes a1))]\<rparr>)) \<and>
         (fnPkg (instr_parent (prog a) conv) = None \<longrightarrow> genConv conv cgn a = Inl NilDeref) \<and>
         n_obj (hd (objectBlock a t cgn (DataValue conv))) =
           Some \<lparr>o_size = sizeof a t, o_cgn = cgn, o_data = DataValue conv, o_flags = {}\<rparr> \<and>
         (\<forall>n \<in> set (tl (objectBlock a t cgn (DataValue conv))). n_obj n = None) \<and>
         0 < length (nodes a1)"
proof -
  note f = gen_frame_valueNode[OF assms(4)]
  note st = static_partD[OF gen_frame_D(1)[OF f]]
  have ne: "nodes a1 \<noteq> []" using extends_length[OF gen_frame_D(3)[OF f]] assms(6) by auto
  have md: "mustDeref (vtype conv) = Some t" using assms(3) by (simp add: mustDeref_def)
  have ux: "underlying (vtype x) = Basic BUnsafePointer" using assms(2) by (simp add: tUnsafePtr_def)
  have fl1: "flatten a1 t \<noteq> []" using assms(7) st(2) by simp
  have ob: "objectBlock a1 t cgn (DataValue conv) = objectBlock a t cgn (DataValue conv)"
    by (simp add: objectBlock_def st(2))
  have body: "genConv conv cgn a =
      (case fnPkg (instr_parent (prog a1) conv) of
         None \<Rightarrow> Inl NilDeref
       | Some path \<Rightarrow>
           let a2 = (if path \<noteq> ''syscall''
                     then warnf (instr_pos (prog a1) conv)
                            (UnsafePointerConversion (instr_parent (prog a1) conv) (vtype conv)) a1
                     else a1)
           in (case mustDeref (vtype conv) of
                 None \<Rightarrow> Inl TypeAssertFail
               | Some t \<Rightarrow>
                   let (obj, a3) = addNodes t ''unsafe.Pointer conversion'' a2
                   in (case endObject obj cgn (DataValue conv) a3 of
                         Inl e \<Rightarrow> Inl e
                       | Inr a4 \<Rightarrow> addressOf res obj a4)))"
    using assms(1,3,4,5) ux by (simp add: genConv_def tUnsafePtr_def)
  have some: "genConv conv cgn a =
             Inr (a1\<lparr>res_warnings :=
                        (if path = ''syscall'' then res_warnings a
                         else res_warnings a @
                              [(instr_pos (prog a) conv,
                                UnsafePointerConversion (instr_parent (prog a) conv) (vtype conv))]),
                     nodes := nodes a1 @ objectBlock a t cgn (DataValue conv),
                     constraints := constraints a1 @ [AddrC res (length (nodes a1))]\<rparr>)"
    if p: "fnPkg (instr_parent (prog a) conv) = Some path" for path
  proof (cases "path = ''syscall''")
    case True
    have w: "a1\<lparr>res_warnings := res_warnings a, nodes := N, constraints := C\<rparr> =
             a1\<lparr>nodes := N, constraints := C\<rparr>" for N C
      using st(10) by (cases a1) simp
    have "genConv conv cgn a =
        (let (obj, a3) = addNodes t ''unsafe.Pointer conversion'' a1
         in (case endObject obj cgn (DataValue conv) a3 of
               Inl e \<Rightarrow> Inl e
             | Inr a4 \<Rightarrow> addressOf res obj a4))"
      unfolding body st(1) md using True p by simp
    also have "\<dots> = addressOf res (length (nodes a1))
        (a1\<lparr>nodes := nodes a1 @ objectBlock a1 t cgn (DataValue conv)\<rparr>)"
      by (rule addNodes_endObject[OF fl1])
    finally show ?thesis
      using True ne assms(5)
      by (simp add: ob addressOf_def addConstraint_def w)
  next
    case False
    define a2 where "a2 = warnf (instr_pos (prog a) conv)
        (UnsafePointerConversion (instr_parent (prog a) conv) (vtype conv)) a1"
    have fl2: "flatten a2 t \<noteq> []" using fl1 by (simp add: a2_def warnf_def)
    have ob2: "objectBlock a2 t cgn (DataValue conv) = objectBlock a t cgn (DataValue conv)"
      using ob by (simp add: objectBlock_def a2_def warnf_def)
    have "genConv conv cgn a =
        (let (obj, a3) = addNodes t ''unsafe.Pointer conversion'' a2
         in (case endObject obj cgn (DataValue conv) a3 of
               Inl e \<Rightarrow> Inl e
             | Inr a4 \<Rightarrow> addressOf res obj a4))"
      unfolding body st(1) md using False p by (simp add: a2_def)
    also have "\<dots> = addressOf res (length (nodes a2))
        (a2\<lparr>nodes := nodes a2 @ objectBlock a2 t cgn (DataValue conv)\<rparr>)"
      by (rule addNodes_endObject[OF fl2])
    finally show ?thesis
      using False ne assms(5)
      by (simp add: addressOf_def addConstraint_def a2_def warnf_def st(10) objectBlock_def st(2))
  qed
  have none: "genConv conv cgn a = Inl NilDeref" if "fnPkg (instr_parent (prog a) conv) = None"
    unfolding body st(1) using that by simp
  from some none objectBlock_header[OF assms(7)] objectBlock_tail_no_header ne
  show ?thesis by blast
qed

text \<open>
  A conversion \<open>(*int)(p)\<close> of a parameter \<open>p\<close> of type \<open>unsafe.Pointer\<close>, in the function
  \<open>main.main\<close> and in a function of package \<open>syscall\<close>.
\<close>

definition ex_conv :: ssa_value where
  "ex_conv = Val ''t1'' (Pointer (Basic BInt)) (KConvert (Val ''p'' (Basic BUnsafePointer) KParameter))"

definition ex_conv_state :: "analysis \<Rightarrow> analysis" where
  "ex_conv_state a =
     a\<lparr>nodes := nodes a @ [\<lparr>n_typ = Pointer (Basic BInt), n_subelement = None, n_obj = None, n_pts = {}\<rparr>],
       globalval := [ex_conv \<mapsto> 2], globalobj := [ex_conv \<mapsto> 0]\<rparr>"

definition ex_syscall :: analysis where
  "ex_syscall =
     ex0\<lparr>prog := ex_prog\<lparr>instr_parent :=
             (\<lambda>v. Val ''syscall.mmap'' (Signature None [] []) (KFunction [] (Some ''syscall'')))\<rparr>\<rparr>"

lemma ex_valueNode_conv:
  assumes "nodes a = nodes ex0" "localval a = Some Map.empty" "globalval a = Map.empty"
    "globalobj a = Map.empty" "cfg_queries a = Map.empty"
  shows "valueNode ex_conv a = Inr (2, ex_conv_state a)"
proof -
  have k: "vkind ex_conv = KConvert (Val ''p'' (Basic BUnsafePointer) KParameter)"
    "vtype ex_conv = Pointer (Basic BInt)"
    by (simp_all add: ex_conv_def)
  have l: "length (nodes a) = 2" using assms(1) by (simp add: ex0_def)
  show ?thesis
    unfolding valueNode.simps[of ex_conv a]
    by (simp add: cachedValue_def lookupLocal_def assms(2-5) objectNode_global_def addOneNode_eq k
        setValueNode.simps nextNode_def l ex_conv_state_def)
qed

theorem unsafe_conversion_allocates_and_warns_witness:
  "genConv ex_conv (Some ex_cg) ex0 =
     Inr ((ex_conv_state ex0)
            \<lparr>res_warnings := [(7, UnsafePointerConversion ex_main (Pointer (Basic BInt)))],
              nodes := nodes (ex_conv_state ex0) @
                [\<lparr>n_typ = Basic BInt, n_subelement = Some \<lparr>fi_typ = Basic BInt, fi_path = []\<rparr>,
                  n_obj = Some \<lparr>o_size = 1, o_cgn = Some ex_cg, o_data = DataValue ex_conv,
                                o_flags = {}\<rparr>,
                  n_pts = {}\<rparr>],
              constraints := [AddrC 2 3]\<rparr>) \<and>
   genConv ex_conv (Some ex_cg) ex_syscall =
     Inr ((ex_conv_state ex_syscall)
            \<lparr>res_warnings := [],
              nodes := nodes (ex_conv_state ex_syscall) @
                [\<lparr>n_typ = Basic BInt, n_subelement = Some \<lparr>fi_typ = Basic BInt, fi_path = []\<rparr>,
                  n_obj = Some \<lparr>o_size = 1, o_cgn = Some ex_cg, o_data = DataValue ex_conv,
                                o_flags = {}\<rparr>,
                  n_pts = {}\<rparr>],
              constraints := [AddrC 2 3]\<rparr>)"
proof
  have k: "vkind ex_conv = KConvert (Val ''p'' (Basic BUnsafePointer) KParameter)"
    "underlying (vtype (Val ''p'' (Basic BUnsafePointer) KParameter)) = tUnsafePtr"
    "underlying (vtype ex_conv) = Pointer (Basic BInt)"
    by (simp_all add: ex_conv_def tUnsafePtr_def)
  have ob: "objectBlock a (Basic BInt) (Some ex_cg) (DataValue ex_conv) =
      [\<lparr>n_typ = Basic BInt, n_subelement = Some \<lparr>fi_typ = Basic BInt, fi_path = []\<rparr>,
        n_obj = Some \<lparr>o_size = 1, o_cgn = Some ex_cg, o_data = DataValue ex_conv, o_flags = {}\<rparr>,
        n_pts = {}\<rparr>]" if "flatten a = flat1" for a
    using that by (simp add: objectBlock_def flat1_def fieldNode_def)
  have nz: "(2::nat) \<noteq> 0" by simp
  have v0: "valueNode ex_conv ex0 = Inr (2, ex_conv_state ex0)"
    by (rule ex_valueNode_conv) (simp_all add: ex0_def)
  have p0: "fnPkg (instr_parent (prog ex0) ex_conv) = Some ''main''"
    by (simp add: ex0_def ex_prog_def ex_main_def fnPkg_def)
  have e0: "res_warnings ex0 = []" "instr_pos (prog ex0) ex_conv = 7"
    "instr_parent (prog ex0) ex_conv = ex_main" "vtype ex_conv = Pointer (Basic BInt)"
    "constraints (ex_conv_state ex0) = []" "length (nodes (ex_conv_state ex0)) = 3"
    by (simp_all add: ex_conv_state_def ex0_def ex_prog_def ex_conv_def)
  have f0: "flatten ex0 (Basic BInt) \<noteq> []" "nodes ex0 \<noteq> []" "flatten ex0 = flat1"
    by (simp_all add: ex0_def flat1_def)
  from unsafe_conversion_allocates_and_warns[OF k v0 nz f0(2) f0(1), of "Some ex_cg",
      THEN conjunct1, rule_format, OF p0]
  show "genConv ex_conv (Some ex_cg) ex0 =
     Inr ((ex_conv_state ex0)
            \<lparr>res_warnings := [(7, UnsafePointerConversion ex_main (Pointer (Basic BInt)))],
              nodes := nodes (ex_conv_state ex0) @
                [\<lparr>n_typ = Basic BInt, n_subelement = Some \<lparr>fi_typ = Basic BInt, fi_path = []\<rparr>,
                  n_obj = Some \<lparr>o_size = 1, o_cgn = Some ex_cg, o_data = DataValue ex_conv,
                                o_flags = {}\<rparr>,
                  n_pts = {}\<rparr>],
              constraints := [AddrC 2 3]\<rparr>)"
    by (simp add: ob[OF f0(3)] e0)
  have v1: "valueNode ex_conv ex_syscall = Inr (2, ex_conv_state ex_syscall)"
    by (rule ex_valueNode_conv) (simp_all add: ex_syscall_def ex0_def)
  have p1: "fnPkg (instr_parent (prog ex_syscall) ex_conv) = Some ''syscall''"
    by (simp add: ex_syscall_def fnPkg_def)
  have e1: "res_warnings ex_syscall = []"
    "constraints (ex_conv_state ex_syscall) = []" "length (nodes (ex_conv_state ex_syscall)) = 3"
    by (simp_all add: ex_conv_state_def ex_syscall_def ex0_def)
  have f1: "flatten ex_syscall (Basic BInt) \<noteq> []" "nodes ex_syscall \<noteq> []"
    "flatten ex_syscall = flat1"
    by (simp_all add: ex_syscall_def ex0_def flat1_def)
  from unsafe_conversion_allocates_and_warns[OF k v1 nz f1(2) f1(1), of "Some ex_cg",
      THEN conjunct1, rule_format, OF p1]
  show "genConv ex_conv (Some ex_cg) ex_syscall =
     Inr ((ex_conv_state ex_syscall)
            \<lparr>res_warnings := [],
              nodes := nodes (ex_conv_state ex_syscall) @
                [\<lparr>n_typ = Basic BInt, n_subelement = Some \<lparr>fi_typ = Basic BInt, fi_path = []\<rparr>,
                  n_obj = Some \<lparr>o_size = 1, o_cgn = Some ex_cg, o_data = DataValue ex_conv,
                                o_flags = {}\<rparr>,
                  n_pts = {}\<rparr>],
              constraints := [AddrC 2 3]\<rparr>)"
    by (simp add: ob[OF f1(3)] e1)
qed

section \<open>C3: the print hook\<close>

lemma gen_frame_genAppend:
  assumes "genAppend instr cgn a = Inr a'"
  shows "gen_frame a a'"
proof (cases "callArgs instr")
  case Nil
  with assms show ?thesis by (simp add: genAppend_def)
next
  case (Cons x rest)
  from assms[unfolded genAppend_def Cons list.case] show ?thesis
  proof (rule bind2E, goal_cases)
    case (1 zn a1)
    note f1 = gen_frame_valueNode[OF 1(1)]
    from 1(2) show ?case
    proof (rule bind2E, goal_cases)
      case (1 xn a2)
      note f2 = gen_frame_valueNode[OF 1(1)]
      from 1(2) show ?case
      proof (rule bindE, goal_cases)
        case (1 a3)
        note f3 = gen_frame_copy[OF 1(1)]
        show ?case
        proof (cases rest)
          case Nil
          with 1(2) have "a' = a3" by simp
          with f1 f2 f3 show ?thesis by (blast intro: gen_frame_trans)
        next
          case (Cons y ys)
          from 1(2)[unfolded Cons list.case] show ?thesis
          proof (rule bindOptE, goal_cases)
            case (1 tArray)
            from 1(2) show ?case
            proof (rule bindE, goal_cases)
              case (1 a4)
              note f4 = gen_frame_alloc[OF 1(1)]
              from 1(2) show ?case
              proof (rule bindE, goal_cases)
                case (1 a5)
                note f5 = gen_frame_copyElems[OF 1(1)]
                from 1(2) show ?case
                proof (rule bind2E, goal_cases)
                  case (1 zn' a6)
                  from f1 f2 f3 f4 f5 gen_frame_valueNode[OF 1(1)] gen_frame_addressOf[OF 1(2)]
                  show ?case by (blast intro: gen_frame_trans)
                qed
              qed
            qed
          qed
        qed
      qed
    qed
  qed
qed

text \<open>
  What one call of \<open>genBuiltinCall\<close> does to the probes and to the record of the
  invocations of the hook: either it is the call \<open>print\<close> with the hook supplied and no
  probe (or the probe 0) recorded for the instruction, and it records the id returned by
  \<open>addNodes\<close> and invokes the hook once; or it changes neither.
\<close>

lemma genBuiltinCall_probes:
  assumes res: "genBuiltinCall instr cgn a = Inr a'"
  shows "((\<exists>call a0 ys. common instr = Some call \<and> vkind (cvalue call) = KBuiltin \<and>
             vname (cvalue call) = ''print'' \<and> cfg_print a \<and> cargs call = a0 # ys \<and>
             (probes a instr = None \<or> probes a instr = Some 0) \<and>
             probes a' = (probes a)(instr \<mapsto> fst (addNodes (vtype a0) ''print'' a)) \<and>
             printed a' = printed a @ [(instr, fst (addNodes (vtype a0) ''print'' a))]) \<or>
          (probes a' = probes a \<and> printed a' = printed a)) \<and>
         cfg_print a' = cfg_print a \<and> flatten a' = flatten a \<and>
         length (nodes a) \<le> length (nodes a')"
proof -
  from assms obtain call where c: "common instr = Some call" and k: "vkind (cvalue call) = KBuiltin"
    by (auto simp: genBuiltinCall_def split: option.splits vkind.splits)
  note r = assms[unfolded genBuiltinCall_def c option.case k vkind.case]
  have frame: ?thesis if "gen_frame a a'"
    using static_partD[OF gen_frame_D(1)[OF that]] extends_length[OF gen_frame_D(3)[OF that]]
    by simp
  consider (app) "vname (cvalue call) = ''append''"
    | (copy) "vname (cvalue call) = ''copy''"
    | (panic) "vname (cvalue call) = ''panic''"
    | (recover) "vname (cvalue call) = ''recover''"
    | (print) "vname (cvalue call) = ''print''"
    | (other) "vname (cvalue call) \<noteq> ''append''" "vname (cvalue call) \<noteq> ''copy''"
        "vname (cvalue call) \<noteq> ''panic''" "vname (cvalue call) \<noteq> ''recover''"
        "vname (cvalue call) \<noteq> ''print''"
    by blast
  then show ?thesis
  proof cases
    case app
    with r have "gen_frame a a'" by (auto split: instruction.splits dest: gen_frame_genAppend)
    then show ?thesis by (rule frame)
  next
    case copy
    with r have "gen_frame a a'" by (auto split: list.splits gotype.splits dest: gen_frame_copyElems)
    then show ?thesis by (rule frame)
  next
    case panic
    with r have "(case cargs call of
                    [] \<Rightarrow> Inl IndexOutOfRange
                  | a0 # ys \<Rightarrow>
                      (case valueNode a0 a of
                         Inl e \<Rightarrow> Inl e
                       | Inr (n, a1) \<Rightarrow> copy (panicNode a1) n 1 a1)) = Inr a'"
      by simp
    then obtain a0 n a1 where "valueNode a0 a = Inr (n, a1)" "copy (panicNode a1) n 1 a1 = Inr a'"
      by (auto split: list.splits sum.splits)
    then have "gen_frame a a'" by (blast intro: gen_frame_trans dest: gen_frame_valueNode gen_frame_copy)
    then show ?thesis by (rule frame)
  next
    case recover
    with r have "(case instrValue instr of
                    None \<Rightarrow> Inr a
                  | Some v \<Rightarrow>
                      (case valueNode v a of
                         Inl e \<Rightarrow> Inl e
                       | Inr (n, a1) \<Rightarrow> copy n (panicNode a1) 1 a1)) = Inr a'"
      by simp
    then have "a' = a \<or> (\<exists>v n a1. valueNode v a = Inr (n, a1) \<and> copy n (panicNode a1) 1 a1 = Inr a')"
      by (auto split: option.splits sum.splits)
    then have "gen_frame a a'"
      by (auto intro: gen_frame_trans dest: gen_frame_valueNode gen_frame_copy)
    then show ?thesis by (rule frame)
  next
    case other
    with r have "a' = a" by simp
    then show ?thesis by simp
  next
    case print
    show ?thesis
    proof (cases "cfg_print a")
      case False
      with r print have "a' = a" by simp
      then show ?thesis by simp
    next
      case True
      with r print obtain a0 ys where args: "cargs call = a0 # ys"
        by (cases "cargs call") auto
      define fresh where "fresh \<longleftrightarrow> (case probes a instr of None \<Rightarrow> 0 | Some p \<Rightarrow> p) = 0"
      define a1 where "a1 = (if fresh
            then (snd (addNodes (vtype a0) ''print'' a))
                   \<lparr>probes := (probes a)(instr \<mapsto> fst (addNodes (vtype a0) ''print'' a)),
                     printed := printed a @ [(instr, fst (addNodes (vtype a0) ''print'' a))]\<rparr>
            else a)"
      from r print True args obtain probe' n a2 where
        vn: "valueNode a0 a1 = Inr (n, a2)" and cp: "copy probe' n (sizeof a2 (vtype a0)) a2 = Inr a'"
        by (auto simp: Let_def a1_def fresh_def addNodes_eq split: if_splits sum.splits)
      from gen_frame_valueNode[OF vn] gen_frame_copy[OF cp] have f: "gen_frame a1 a'"
        by (rule gen_frame_trans)
      note st = static_partD[OF gen_frame_D(1)[OF f]]
      note ln = extends_length[OF gen_frame_D(3)[OF f]]
      show ?thesis
      proof (cases fresh)
        case False
        with f have "gen_frame a a'" by (simp add: a1_def)
        then show ?thesis by (rule frame)
      next
        case fr: True
        then have p0: "probes a instr = None \<or> probes a instr = Some 0"
          by (auto simp: fresh_def split: option.splits)
        have a1: "probes a1 = (probes a)(instr \<mapsto> fst (addNodes (vtype a0) ''print'' a))"
          "printed a1 = printed a @ [(instr, fst (addNodes (vtype a0) ''print'' a))]"
          "cfg_print a1 = cfg_print a" "flatten a1 = flatten a" "length (nodes a) \<le> length (nodes a1)"
          using fr by (simp_all add: a1_def addNodes_eq)
        from c k print True args p0 a1 st(2,5,8,11) ln show ?thesis by auto
      qed
    qed
  qed
qed

text \<open>The two kinds of encounter of a \<open>print\<close> call when the hook is supplied.\<close>

lemma print_first:
  assumes c: "common instr = Some call" and k: "vkind (cvalue call) = KBuiltin"
    and nm: "vname (cvalue call) = ''print''" and args: "cargs call = a0 # ys"
    and hook: "cfg_print a" and none: "probes a instr = None"
    and res: "genBuiltinCall instr cgn a = Inr a'"
  shows "\<exists>n a2.
           valueNode a0 ((snd (addNodes (vtype a0) ''print'' a))
                   \<lparr>probes := (probes a)(instr \<mapsto> fst (addNodes (vtype a0) ''print'' a)),
                     printed := printed a @ [(instr, fst (addNodes (vtype a0) ''print'' a))]\<rparr>) =
             Inr (n, a2) \<and>
           copy (fst (addNodes (vtype a0) ''print'' a)) n (sizeof a (vtype a0)) a2 = Inr a' \<and>
           probes a' = (probes a)(instr \<mapsto> fst (addNodes (vtype a0) ''print'' a)) \<and>
           printed a' = printed a @ [(instr, fst (addNodes (vtype a0) ''print'' a))]"
proof -
  define a1 where "a1 = (snd (addNodes (vtype a0) ''print'' a))
                   \<lparr>probes := (probes a)(instr \<mapsto> fst (addNodes (vtype a0) ''print'' a)),
                     printed := printed a @ [(instr, fst (addNodes (vtype a0) ''print'' a))]\<rparr>"
  from res[unfolded genBuiltinCall_def c option.case k vkind.case] nm hook args none
  obtain n a2 where vn: "valueNode a0 a1 = Inr (n, a2)"
    and cp: "copy (fst (addNodes (vtype a0) ''print'' a)) n (sizeof a2 (vtype a0)) a2 = Inr a'"
    by (auto simp: Let_def a1_def addNodes_eq split: if_splits sum.splits)
  from gen_frame_valueNode[OF vn] gen_frame_copy[OF cp] have f: "gen_frame a1 a'"
    by (rule gen_frame_trans)
  note st = static_partD[OF gen_frame_D(1)[OF f]]
  note st2 = static_partD[OF gen_frame_D(1)[OF gen_frame_valueNode[OF vn]]]
  have "sizeof a2 (vtype a0) = sizeof a (vtype a0)"
    using st2(2) by (simp add: sizeof_def a1_def addNodes_eq)
  with vn cp st(8,11) show ?thesis
    unfolding a1_def[symmetric] by (auto simp: a1_def addNodes_eq)
qed

lemma print_later:
  assumes c: "common instr = Some call" and k: "vkind (cvalue call) = KBuiltin"
    and nm: "vname (cvalue call) = ''print''" and args: "cargs call = a0 # ys"
    and hook: "cfg_print a" and some: "probes a instr = Some p" "p \<noteq> 0"
    and res: "genBuiltinCall instr cgn a = Inr a'"
  shows "\<exists>n a2. valueNode a0 a = Inr (n, a2) \<and> copy p n (sizeof a (vtype a0)) a2 = Inr a' \<and>
           probes a' = probes a \<and> printed a' = printed a"
proof -
  from res[unfolded genBuiltinCall_def c option.case k vkind.case] nm hook args some
  obtain n a2 where vn: "valueNode a0 a = Inr (n, a2)"
    and cp: "copy p n (sizeof a2 (vtype a0)) a2 = Inr a'"
    by (auto simp: Let_def split: if_splits sum.splits)
  from gen_frame_valueNode[OF vn] gen_frame_copy[OF cp] have f: "gen_frame a a'"
    by (rule gen_frame_trans)
  note st = static_partD[OF gen_frame_D(1)[OF f]]
  note st2 = static_partD[OF gen_frame_D(1)[OF gen_frame_valueNode[OF vn]]]
  have "sizeof a2 (vtype a0) = sizeof a (vtype a0)"
    using st2(2) by (simp add: sizeof_def)
  with vn cp st(8,11) show ?thesis by auto
qed

text \<open>
  A run of the generator meets calls of built-ins one after the other, each in some
  contour. The invocations of the hook for one instruction are its entries in \<open>printed\<close>.
\<close>

fun genBuiltinCalls :: "(instruction \<times> cgnode option) list \<Rightarrow> analysis \<Rightarrow> error + analysis" where
  "genBuiltinCalls [] a = Inr a"
| "genBuiltinCalls ((instr, cgn) # es) a =
     (case genBuiltinCall instr cgn a of
        Inl e \<Rightarrow> Inl e
      | Inr a1 \<Rightarrow> genBuiltinCalls es a1)"

definition hook_calls :: "analysis \<Rightarrow> instruction \<Rightarrow> (instruction \<times> nat) list" where
  "hook_calls a instr = filter (\<lambda>e. fst e = instr) (printed a)"

lemma probed_stays:
  assumes "genBuiltinCalls es a = Inr a'" "probes a instr = Some p" "p \<noteq> 0"
  shows "probes a' instr = Some p \<and> hook_calls a' instr = hook_calls a instr"
  using assms
proof (induction es arbitrary: a)
  case Nil
  then show ?case by simp
next
  case (Cons e es)
  obtain i cg where e: "e = (i, cg)" by (cases e)
  from Cons.prems(1) e obtain a1 where
    s: "genBuiltinCall i cg a = Inr a1" and r: "genBuiltinCalls es a1 = Inr a'"
    by (auto split: sum.splits)
  from genBuiltinCall_probes[OF s] Cons.prems(2,3)
  have "probes a1 instr = Some p \<and> hook_calls a1 instr = hook_calls a instr"
    by (cases "i = instr") (auto simp: hook_calls_def)
  with Cons.IH[OF r _ Cons.prems(3)] show ?case by simp
qed

lemma print_hook_once:
  assumes c: "common instr = Some call" and k: "vkind (cvalue call) = KBuiltin"
    and nm: "vname (cvalue call) = ''print''" and args: "cargs call = a0 # ys"
    and hook: "cfg_print a" and fl: "flatten a (vtype a0) \<noteq> []" and ne: "nodes a \<noteq> []"
    and none: "probes a instr = None"
    and run: "genBuiltinCalls es a = Inr a'"
  shows "if instr \<in> fst ` set es
         then \<exists>p. p \<noteq> 0 \<and> probes a' instr = Some p \<and>
                  hook_calls a' instr = hook_calls a instr @ [(instr, p)]
         else probes a' instr = None \<and> hook_calls a' instr = hook_calls a instr"
  using hook fl ne none run
proof (induction es arbitrary: a)
  case Nil
  then show ?case by simp
next
  case (Cons e es)
  obtain i cg where e: "e = (i, cg)" by (cases e)
  from Cons.prems(5) e obtain a1 where
    s: "genBuiltinCall i cg a = Inr a1" and r: "genBuiltinCalls es a1 = Inr a'"
    by (auto split: sum.splits)
  show ?case
  proof (cases "i = instr")
    case True
    from print_first[OF c k nm args Cons.prems(1,4) s[unfolded True]]
    have p1: "probes a1 instr = Some (fst (addNodes (vtype a0) ''print'' a))"
      and h1: "hook_calls a1 instr = hook_calls a instr @ [(instr, fst (addNodes (vtype a0) ''print'' a))]"
      by (auto simp: hook_calls_def)
    have nz: "fst (addNodes (vtype a0) ''print'' a) \<noteq> 0"
      using Cons.prems(2,3) by (simp add: addNodes_eq)
    from probed_stays[OF r p1 nz] h1 nz True e show ?thesis by auto
  next
    case False
    from genBuiltinCall_probes[OF s] False Cons.prems
    have "cfg_print a1" "flatten a1 (vtype a0) \<noteq> []" "nodes a1 \<noteq> []" "probes a1 instr = None"
      and h: "hook_calls a1 instr = hook_calls a instr"
      by (auto simp: hook_calls_def)
    have mem: "instr \<in> fst ` set (e # es) \<longleftrightarrow> instr \<in> fst ` set es"
      using False e by auto
    from Cons.IH[OF \<open>cfg_print a1\<close> \<open>flatten a1 (vtype a0) \<noteq> []\<close> \<open>nodes a1 \<noteq> []\<close>
        \<open>probes a1 instr = None\<close> r, unfolded h]
    show ?thesis unfolding mem .
  qed
qed

text \<open>
  C3 (amended). Let the hook be supplied and let \<open>instr\<close> be a call of \<open>print\<close> with first
  argument \<open>arg\<close>. An encounter of \<open>instr\<close> that finds no probe recorded creates the probe
  with \<open>addNodes\<close>, records it under the call site, invokes the hook once with it and
  copies the value of \<open>arg\<close> into it; an encounter that finds a nonzero probe \<open>p\<close> recorded
  copies the value of \<open>arg\<close> into \<open>p\<close> and neither changes the probes nor invokes the hook.
  Hence, when the type of \<open>arg\<close> has at least one node (and the sentinel node exists), over
  any run of calls of built-ins that meets \<open>instr\<close>, in whatever contours and however
  often, the hook is invoked for \<open>instr\<close> exactly once, with its nonzero probe. A call of
  \<open>println\<close> has no effect and never invokes the hook.
\<close>

theorem print_hook_once_per_call_site:
  "(common instr = Some call \<and> vkind (cvalue call) = KBuiltin \<and>
    vname (cvalue call) = ''print'' \<and> cargs call = arg # ys \<and> cfg_print a \<longrightarrow>
      (\<forall>cgn a'. probes a instr = None \<and> genBuiltinCall instr cgn a = Inr a' \<longrightarrow>
         probes a' = (probes a)(instr \<mapsto> fst (addNodes (vtype arg) ''print'' a)) \<and>
         printed a' = printed a @ [(instr, fst (addNodes (vtype arg) ''print'' a))] \<and>
         (\<exists>n a2.
            valueNode arg ((snd (addNodes (vtype arg) ''print'' a))
                   \<lparr>probes := (probes a)(instr \<mapsto> fst (addNodes (vtype arg) ''print'' a)),
                     printed := printed a @ [(instr, fst (addNodes (vtype arg) ''print'' a))]\<rparr>) =
              Inr (n, a2) \<and>
            copy (fst (addNodes (vtype arg) ''print'' a)) n (sizeof a (vtype arg)) a2 = Inr a')) \<and>
      (\<forall>p cgn a'. probes a instr = Some p \<and> p \<noteq> 0 \<and> genBuiltinCall instr cgn a = Inr a' \<longrightarrow>
         probes a' = probes a \<and> printed a' = printed a \<and>
         (\<exists>n a2. valueNode arg a = Inr (n, a2) \<and> copy p n (sizeof a (vtype arg)) a2 = Inr a')) \<and>
      (\<forall>es a'. flatten a (vtype arg) \<noteq> [] \<and> nodes a \<noteq> [] \<and> probes a instr = None \<and>
         hook_calls a instr = [] \<and> genBuiltinCalls es a = Inr a' \<and> instr \<in> fst ` set es \<longrightarrow>
         (\<exists>p. p \<noteq> 0 \<and> probes a' instr = Some p \<and> hook_calls a' instr = [(instr, p)]))) \<and>
   (common instr = Some call \<and> vkind (cvalue call) = KBuiltin \<and>
    vname (cvalue call) = ''println'' \<longrightarrow> genBuiltinCall instr cgx a = Inr a)"
proof (intro conjI impI allI)
  assume h: "common instr = Some call \<and> vkind (cvalue call) = KBuiltin \<and>
    vname (cvalue call) = ''print'' \<and> cargs call = arg # ys \<and> cfg_print a"
  then have c: "common instr = Some call" and k: "vkind (cvalue call) = KBuiltin"
    and nm: "vname (cvalue call) = ''print''" and args: "cargs call = arg # ys"
    and hook: "cfg_print a"
    by simp_all
  {
    fix cgn a'
    assume "probes a instr = None \<and> genBuiltinCall instr cgn a = Inr a'"
    then have none: "probes a instr = None" and res: "genBuiltinCall instr cgn a = Inr a'"
      by simp_all
    note f = print_first[OF c k nm args hook none res]
    from f show "probes a' = (probes a)(instr \<mapsto> fst (addNodes (vtype arg) ''print'' a))"
      by blast
    from f show "printed a' = printed a @ [(instr, fst (addNodes (vtype arg) ''print'' a))]"
      by blast
    from f show "\<exists>n a2.
            valueNode arg ((snd (addNodes (vtype arg) ''print'' a))
                   \<lparr>probes := (probes a)(instr \<mapsto> fst (addNodes (vtype arg) ''print'' a)),
                     printed := printed a @ [(instr, fst (addNodes (vtype arg) ''print'' a))]\<rparr>) =
              Inr (n, a2) \<and>
            copy (fst (addNodes (vtype arg) ''print'' a)) n (sizeof a (vtype arg)) a2 = Inr a'"
      by blast
  }
  {
    fix p cgn a'
    assume "probes a instr = Some p \<and> p \<noteq> 0 \<and> genBuiltinCall instr cgn a = Inr a'"
    then have some: "probes a instr = Some p" "p \<noteq> 0" and res: "genBuiltinCall instr cgn a = Inr a'"
      by simp_all
    note l = print_later[OF c k nm args hook some res]
    from l show "probes a' = probes a" by blast
    from l show "printed a' = printed a" by blast
    from l show "\<exists>n a2. valueNode arg a = Inr (n, a2) \<and> copy p n (sizeof a (vtype arg)) a2 = Inr a'"
      by blast
  }
  {
    fix es a'
    assume "flatten a (vtype arg) \<noteq> [] \<and> nodes a \<noteq> [] \<and> probes a instr = None \<and>
         hook_calls a instr = [] \<and> genBuiltinCalls es a = Inr a' \<and> instr \<in> fst ` set es"
    then have fl: "flatten a (vtype arg) \<noteq> []" and ne: "nodes a \<noteq> []"
      and none: "probes a instr = None" and h0: "hook_calls a instr = []"
      and run: "genBuiltinCalls es a = Inr a'" and mem: "instr \<in> fst ` set es"
      by simp_all
    from print_hook_once[OF c k nm args hook fl ne none run] mem h0
    show "\<exists>p. p \<noteq> 0 \<and> probes a' instr = Some p \<and> hook_calls a' instr = [(instr, p)]"
      by simp
  }
next
  assume "common instr = Some call \<and> vkind (cvalue call) = KBuiltin \<and>
    vname (cvalue call) = ''println''"
  then show "genBuiltinCall instr cgx a = Inr a"
    by (simp add: genBuiltinCall_def)
qed

text \<open>
  A call \<open>print(q)\<close> of a pointer \<open>q\<close> whose value node is node 1, a call \<open>println(q)\<close>, and
  the state in which they are met.
\<close>

definition ex_q :: ssa_value where
  "ex_q = Val ''q'' (Pointer (Basic BInt)) KParameter"

definition ex_print :: instruction where
  "ex_print = IValue (Val ''t2'' (Tuple [])
                 (KCall (CallCommon (Val ''print'' (Signature None [] []) KBuiltin) None [ex_q])))"

definition ex_println :: instruction where
  "ex_println = IValue (Val ''t3'' (Tuple [])
                   (KCall (CallCommon (Val ''println'' (Signature None [] []) KBuiltin) None [ex_q])))"

definition ex_pstate :: analysis where
  "ex_pstate = ex0\<lparr>globalval := [ex_q \<mapsto> 1]\<rparr>"

definition ex_pstate1 :: analysis where
  "ex_pstate1 =
     ex_pstate\<lparr>nodes := nodes ex0 @ [fieldNode \<lparr>fi_typ = Pointer (Basic BInt), fi_path = []\<rparr>],
               probes := [ex_print \<mapsto> 2], printed := [(ex_print, 2)],
               constraints := [CopyC 2 1]\<rparr>"

lemma ex_print_shape:
  "common ex_print = Some (CallCommon (Val ''print'' (Signature None [] []) KBuiltin) None [ex_q])"
  "common ex_println = Some (CallCommon (Val ''println'' (Signature None [] []) KBuiltin) None [ex_q])"
  by (simp_all add: common_def ex_print_def ex_println_def)

lemma ex_valueNode_q:
  "localval a = Some Map.empty \<Longrightarrow> globalval a = [ex_q \<mapsto> 1] \<Longrightarrow> valueNode ex_q a = Inr (1, a)"
  by (simp add: valueNode.simps[of ex_q a] cachedValue_def lookupLocal_def)

lemma ex_print_first: "genBuiltinCall ex_print cg ex_pstate = Inr ex_pstate1"
proof -
  have t: "vtype ex_q = Pointer (Basic BInt)" by (simp add: ex_q_def)
  have a: "addNodes (Pointer (Basic BInt)) ''print'' ex_pstate =
      (2, ex_pstate\<lparr>nodes := nodes ex0 @ [fieldNode \<lparr>fi_typ = Pointer (Basic BInt), fi_path = []\<rparr>]\<rparr>)"
    by (simp add: addNodes_eq ex_pstate_def ex0_def flat1_def)
  have v: "valueNode ex_q
      (ex_pstate\<lparr>nodes := nodes ex0 @ [fieldNode \<lparr>fi_typ = Pointer (Basic BInt), fi_path = []\<rparr>],
                 probes := [ex_print \<mapsto> 2], printed := [(ex_print, 2)]\<rparr>) =
      Inr (1, ex_pstate\<lparr>nodes := nodes ex0 @ [fieldNode \<lparr>fi_typ = Pointer (Basic BInt), fi_path = []\<rparr>],
                 probes := [ex_print \<mapsto> 2], printed := [(ex_print, 2)]\<rparr>)"
    by (rule ex_valueNode_q) (simp_all add: ex_pstate_def ex0_def)
  have p: "probes ex_pstate = Map.empty" "printed ex_pstate = []" "cfg_print ex_pstate"
    "constraints ex_pstate = []" "flatten ex_pstate = flat1"
    by (simp_all add: ex_pstate_def ex0_def)
  show ?thesis
    unfolding genBuiltinCall_def ex_print_shape option.case
    by (simp add: p t a v sizeof_def flat1_def copy_def addConstraint_def ex_pstate1_def)
qed

lemma ex_print_later:
  "genBuiltinCall ex_print cg ex_pstate1 = Inr (ex_pstate1\<lparr>constraints := [CopyC 2 1, CopyC 2 1]\<rparr>)"
proof -
  have t: "vtype ex_q = Pointer (Basic BInt)" by (simp add: ex_q_def)
  have v: "valueNode ex_q ex_pstate1 = Inr (1, ex_pstate1)"
    by (rule ex_valueNode_q) (simp_all add: ex_pstate1_def ex_pstate_def ex0_def)
  have p: "probes ex_pstate1 = [ex_print \<mapsto> 2]" "cfg_print ex_pstate1"
    "constraints ex_pstate1 = [CopyC 2 1]" "flatten ex_pstate1 = flat1"
    by (simp_all add: ex_pstate1_def ex_pstate_def ex0_def)
  show ?thesis
    unfolding genBuiltinCall_def ex_print_shape option.case
    by (simp add: p t v sizeof_def flat1_def copy_def addConstraint_def)
qed

theorem print_hook_once_per_call_site_witness:
  "genBuiltinCalls [(ex_print, None), (ex_print, Some ex_cg)] ex_pstate =
     Inr (ex_pstate1\<lparr>constraints := [CopyC 2 1, CopyC 2 1]\<rparr>) \<and>
   hook_calls (ex_pstate1\<lparr>constraints := [CopyC 2 1, CopyC 2 1]\<rparr>) ex_print = [(ex_print, 2)] \<and>
   probes (ex_pstate1\<lparr>constraints := [CopyC 2 1, CopyC 2 1]\<rparr>) ex_print = Some 2"
proof -
  have run: "genBuiltinCalls [(ex_print, None), (ex_print, Some ex_cg)] ex_pstate =
     Inr (ex_pstate1\<lparr>constraints := [CopyC 2 1, CopyC 2 1]\<rparr>)"
    by (simp add: ex_print_first ex_print_later)
  have pre: "common ex_print = Some (CallCommon (Val ''print'' (Signature None [] []) KBuiltin) None [ex_q]) \<and>
      vkind (cvalue (CallCommon (Val ''print'' (Signature None [] []) KBuiltin) None [ex_q])) = KBuiltin \<and>
      vname (cvalue (CallCommon (Val ''print'' (Signature None [] []) KBuiltin) None [ex_q])) = ''print'' \<and>
      cargs (CallCommon (Val ''print'' (Signature None [] []) KBuiltin) None [ex_q]) = ex_q # [] \<and>
      cfg_print ex_pstate"
    by (simp add: ex_print_shape ex_pstate_def ex0_def)
  have pre2: "flatten ex_pstate (vtype ex_q) \<noteq> [] \<and> nodes ex_pstate \<noteq> [] \<and>
      probes ex_pstate ex_print = None \<and> hook_calls ex_pstate ex_print = [] \<and>
      genBuiltinCalls [(ex_print, None), (ex_print, Some ex_cg)] ex_pstate =
        Inr (ex_pstate1\<lparr>constraints := [CopyC 2 1, CopyC 2 1]\<rparr>) \<and>
      ex_print \<in> fst ` set [(ex_print, None), (ex_print, Some ex_cg)]"
  proof -
    have "flatten ex_pstate (vtype ex_q) \<noteq> []" "nodes ex_pstate \<noteq> []"
      "probes ex_pstate ex_print = None" "hook_calls ex_pstate ex_print = []"
      by (simp_all add: ex_pstate_def ex0_def flat1_def hook_calls_def ex_q_def)
    with run show ?thesis by simp
  qed
  from print_hook_once_per_call_site[where instr = ex_print and a = ex_pstate and arg = ex_q
      and ys = "[]" and call = "CallCommon (Val ''print'' (Signature None [] []) KBuiltin) None [ex_q]",
      THEN conjunct1, rule_format, OF pre, THEN conjunct2, THEN conjunct2, rule_format, OF pre2]
  obtain p where "probes (ex_pstate1\<lparr>constraints := [CopyC 2 1, CopyC 2 1]\<rparr>) ex_print = Some p"
    and h: "hook_calls (ex_pstate1\<lparr>constraints := [CopyC 2 1, CopyC 2 1]\<rparr>) ex_print = [(ex_print, p)]"
    by blast
  moreover have "probes (ex_pstate1\<lparr>constraints := [CopyC 2 1, CopyC 2 1]\<rparr>) ex_print = Some 2"
    by (simp add: ex_pstate1_def)
  ultimately show ?thesis using run by simp
qed

text \<open>
  The claim as worded fails for \<open>println\<close>: with the hook supplied, a call site of
  \<open>println\<close> met in two contours leaves the state as it is, and the hook is invoked for
  it not once but never.
\<close>

theorem println_never_invokes_hook:
  "cfg_print ex_pstate \<and>
   genBuiltinCalls [(ex_println, None), (ex_println, Some ex_cg)] ex_pstate = Inr ex_pstate \<and>
   hook_calls ex_pstate ex_println = [] \<and> probes ex_pstate ex_println = None"
proof -
  have "genBuiltinCall ex_println cg ex_pstate = Inr ex_pstate" for cg
    unfolding genBuiltinCall_def ex_print_shape option.case by simp
  then show ?thesis
    by (simp add: ex_pstate_def ex0_def hook_calls_def)
qed

section \<open>C4: pre-applied propagation of loads and stores\<close>

text \<open>
  The solver (solve.go) is not among the sources. Modelled from the spec: the
  propagation rules of the constraint algebra (4.3). A solution is a set of pairs
  (node, label); \<open>addr{dst, obj}\<close> inserts \<open>obj\<close> into \<open>pts(dst)\<close>, \<open>copy{dst, src}\<close> flows
  all labels of \<open>src\<close> to \<open>dst\<close>, \<open>load{offset, dst, src}\<close> gives \<open>pts(dst) \<supseteq> pts(o + offset)\<close>
  for each \<open>o\<close> in \<open>pts(src)\<close>, \<open>store{offset, dst, src}\<close> gives \<open>pts(o + offset) \<supseteq> pts(src)\<close>
  for each \<open>o\<close> in \<open>pts(dst)\<close>, and \<open>offsetAddr{offset, dst, src}\<close> gives
  \<open>pts(dst) \<supseteq> {o + offset | o \<in> pts(src)}\<close>. The rules of the other constraints (type
  assertions, invocations, the reflection intrinsics) are an arbitrary monotone operator
  \<open>F\<close>. The final points-to solution is the least set closed under all rules.
\<close>

definition rule :: "constraint \<Rightarrow> (nat \<times> nat) set \<Rightarrow> (nat \<times> nat) set" where
  "rule c S =
     (case c of
        AddrC d ob \<Rightarrow> {(d, ob)}
      | CopyC d s \<Rightarrow> {(d, l) | l. (s, l) \<in> S}
      | LoadC off d s \<Rightarrow> {(d, l) | ob l. (s, ob) \<in> S \<and> (ob + off, l) \<in> S}
      | StoreC off d s \<Rightarrow> {(ob + off, l) | ob l. (d, ob) \<in> S \<and> (s, l) \<in> S}
      | OffsetAddrC off d s \<Rightarrow> {(d, ob + off) | ob. (s, ob) \<in> S}
      | _ \<Rightarrow> {})"

definition propagate ::
    "((nat \<times> nat) set \<Rightarrow> (nat \<times> nat) set) \<Rightarrow> constraint set \<Rightarrow> (nat \<times> nat) set \<Rightarrow> (nat \<times> nat) set" where
  "propagate F C S = (\<Union>c \<in> C. rule c S) \<union> F S"

definition solution :: "((nat \<times> nat) set \<Rightarrow> (nat \<times> nat) set) \<Rightarrow> constraint set \<Rightarrow> (nat \<times> nat) set" where
  "solution F C = lfp (propagate F C)"

text \<open>
  The constraints of a load or store of width \<open>sz\<close> as \<open>load\<close> and \<open>store\<close> emit them, and
  the copies that \<open>genLoad\<close> and \<open>genStore\<close> emit in their place when the object \<open>obj\<close> of the
  pointer is known.
\<close>

definition uncollapsed_load :: "nat \<Rightarrow> nat \<Rightarrow> nat \<Rightarrow> nat \<Rightarrow> constraint list" where
  "uncollapsed_load dst p off sz = map (\<lambda>i. LoadC (off + i) (dst + i) p) [0..<sz]"

definition collapsed_load :: "nat \<Rightarrow> nat \<Rightarrow> nat \<Rightarrow> nat \<Rightarrow> constraint list" where
  "collapsed_load dst obj off sz = map (\<lambda>i. CopyC (dst + i) (obj + off + i)) [0..<sz]"

definition uncollapsed_store :: "nat \<Rightarrow> nat \<Rightarrow> nat \<Rightarrow> nat \<Rightarrow> constraint list" where
  "uncollapsed_store p src off sz = map (\<lambda>i. StoreC (off + i) p (src + i)) [0..<sz]"

definition collapsed_store :: "nat \<Rightarrow> nat \<Rightarrow> nat \<Rightarrow> nat \<Rightarrow> constraint list" where
  "collapsed_store obj src off sz = map (\<lambda>i. CopyC (obj + off + i) (src + i)) [0..<sz]"

lemma mono_rule: "S \<subseteq> T \<Longrightarrow> rule c S \<subseteq> rule c T"
  by (cases c) (auto simp: rule_def)

lemma mono_propagate: "mono F \<Longrightarrow> mono (propagate F C)"
  unfolding propagate_def mono_def
  by (meson UN_mono Un_mono mono_rule subset_refl)

lemma solution_unfold: "mono F \<Longrightarrow> solution F C = propagate F C (solution F C)"
  unfolding solution_def by (rule lfp_unfold[OF mono_propagate])

lemma solution_least: "propagate F C S \<subseteq> S \<Longrightarrow> solution F C \<subseteq> S"
  unfolding solution_def by (rule lfp_lowerbound)

lemma solution_rule: "mono F \<Longrightarrow> c \<in> C \<Longrightarrow> rule c (solution F C) \<subseteq> solution F C"
  using solution_unfold[of F C] by (auto simp: propagate_def)

lemma solution_F: "mono F \<Longrightarrow> F (solution F C) \<subseteq> solution F C"
  using solution_unfold[of F C] by (auto simp: propagate_def)

lemma solution_eqI:
  assumes m: "mono F"
    and 1: "\<And>c. c \<in> K \<Longrightarrow> rule c (solution F (C \<union> L)) \<subseteq> solution F (C \<union> L)"
    and 2: "\<And>c S. c \<in> L \<Longrightarrow> S = solution F (C \<union> K) \<Longrightarrow> S \<subseteq> solution F (C \<union> L) \<Longrightarrow>
              rule c S \<subseteq> S"
  shows "solution F (C \<union> L) = solution F (C \<union> K)"
proof (rule antisym)
  have "propagate F (C \<union> K) (solution F (C \<union> L)) \<subseteq> solution F (C \<union> L)"
    unfolding propagate_def
    using 1 solution_rule[OF m, of _ "C \<union> L"] solution_F[OF m, of "C \<union> L"] by blast
  then show le: "solution F (C \<union> K) \<subseteq> solution F (C \<union> L)" by (rule solution_least)
  have "propagate F (C \<union> L) (solution F (C \<union> K)) \<subseteq> solution F (C \<union> K)"
    unfolding propagate_def
    using 2[OF _ refl le] solution_rule[OF m, of _ "C \<union> K"] solution_F[OF m, of "C \<union> K"] by blast
  then show "solution F (C \<union> L) \<subseteq> solution F (C \<union> K)" by (rule solution_least)
qed

lemma preapplied_load:
  assumes m: "mono F"
    and single: "\<forall>ob. (p, ob) \<in> solution F (C \<union> set (uncollapsed_load dst p off sz)) \<longleftrightarrow> ob = obj"
  shows "solution F (C \<union> set (uncollapsed_load dst p off sz)) =
         solution F (C \<union> set (collapsed_load dst obj off sz))"
proof (rule solution_eqI[OF m])
  fix c
  assume "c \<in> set (collapsed_load dst obj off sz)"
  then obtain i where i: "i < sz" and c: "c = CopyC (dst + i) (obj + off + i)"
    by (auto simp: collapsed_load_def)
  let ?S = "solution F (C \<union> set (uncollapsed_load dst p off sz))"
  have l: "LoadC (off + i) (dst + i) p \<in> C \<union> set (uncollapsed_load dst p off sz)"
    using i by (auto simp: uncollapsed_load_def)
  have "rule c ?S \<subseteq> rule (LoadC (off + i) (dst + i) p) ?S"
    using single by (auto simp: rule_def c add.assoc)
  with solution_rule[OF m l] show "rule c ?S \<subseteq> ?S" by blast
next
  fix c S
  assume "c \<in> set (uncollapsed_load dst p off sz)"
    and S: "S = solution F (C \<union> set (collapsed_load dst obj off sz))"
    and le: "S \<subseteq> solution F (C \<union> set (uncollapsed_load dst p off sz))"
  then obtain i where i: "i < sz" and c: "c = LoadC (off + i) (dst + i) p"
    by (auto simp: uncollapsed_load_def)
  have k: "CopyC (dst + i) (obj + off + i) \<in> C \<union> set (collapsed_load dst obj off sz)"
    using i by (auto simp: collapsed_load_def)
  have "rule c S \<subseteq> rule (CopyC (dst + i) (obj + off + i)) S"
    using single le by (auto simp: rule_def c add.assoc)
  with solution_rule[OF m k] S show "rule c S \<subseteq> S" by blast
qed

lemma preapplied_store:
  assumes m: "mono F"
    and single: "\<forall>ob. (p, ob) \<in> solution F (C \<union> set (uncollapsed_store p src off sz)) \<longleftrightarrow> ob = obj"
  shows "solution F (C \<union> set (uncollapsed_store p src off sz)) =
         solution F (C \<union> set (collapsed_store obj src off sz))"
proof (rule solution_eqI[OF m])
  fix c
  assume "c \<in> set (collapsed_store obj src off sz)"
  then obtain i where i: "i < sz" and c: "c = CopyC (obj + off + i) (src + i)"
    by (auto simp: collapsed_store_def)
  let ?S = "solution F (C \<union> set (uncollapsed_store p src off sz))"
  have l: "StoreC (off + i) p (src + i) \<in> C \<union> set (uncollapsed_store p src off sz)"
    using i by (auto simp: uncollapsed_store_def)
  have "rule c ?S \<subseteq> rule (StoreC (off + i) p (src + i)) ?S"
    using single by (auto simp: rule_def c add.assoc)
  with solution_rule[OF m l] show "rule c ?S \<subseteq> ?S" by blast
next
  fix c S
  assume "c \<in> set (uncollapsed_store p src off sz)"
    and S: "S = solution F (C \<union> set (collapsed_store obj src off sz))"
    and le: "S \<subseteq> solution F (C \<union> set (uncollapsed_store p src off sz))"
  then obtain i where i: "i < sz" and c: "c = StoreC (off + i) p (src + i)"
    by (auto simp: uncollapsed_store_def)
  have k: "CopyC (obj + off + i) (src + i) \<in> C \<union> set (collapsed_store obj src off sz)"
    using i by (auto simp: collapsed_store_def)
  have "rule c S \<subseteq> rule (CopyC (obj + off + i) (src + i)) S"
    using single le by (auto simp: rule_def c add.assoc)
  with solution_rule[OF m k] S show "rule c S \<subseteq> S" by blast
qed

text \<open>What \<open>genLoad\<close> and \<open>genStore\<close> do with the result of \<open>objectNode\<close>.\<close>

lemma genLoad_known:
  "objectNode cgn ptr a = Inr (obj, a1) \<Longrightarrow> obj \<noteq> 0 \<Longrightarrow>
   genLoad cgn dst ptr off sz a = copy dst (add32 obj off) sz a1"
  by (simp add: genLoad.simps[of cgn dst ptr off sz a] objectNode_def)

lemma genLoad_unknown:
  "objectNode cgn ptr a = Inr (0, a1) \<Longrightarrow> valueNode ptr a1 = Inr (p, a2) \<Longrightarrow>
   genLoad cgn dst ptr off sz a = load dst p off sz a2"
  by (simp add: genLoad.simps[of cgn dst ptr off sz a] objectNode_def)

lemma genStore_known:
  "objectNode cgn ptr a = Inr (obj, a1) \<Longrightarrow> obj \<noteq> 0 \<Longrightarrow>
   genStore cgn ptr src off sz a = copy (add32 obj off) src sz a1"
  by (simp add: genStore_def)

lemma genStore_unknown:
  "objectNode cgn ptr a = Inr (0, a1) \<Longrightarrow> valueNode ptr a1 = Inr (p, a2) \<Longrightarrow>
   genStore cgn ptr src off sz a = store p src off sz a2"
  by (simp add: genStore_def)

lemma add32_nowrap: "n + k < 2 ^ 32 \<Longrightarrow> add32 n k = n + k"
  by (simp add: add32_def)

lemma copy_emits:
  assumes "src \<noteq> dst" "src \<noteq> 0" "dst \<noteq> 0" "0 < sz" "dst + sz \<le> 2 ^ 32" "src + sz \<le> 2 ^ 32"
  shows "copy dst src sz a =
     Inr (a\<lparr>constraints := constraints a @ map (\<lambda>i. CopyC (dst + i) (src + i)) [0..<sz]\<rparr>)"
  using assms by (simp add: copy_def copy_loop_nowrap)

lemma load_emits:
  assumes "p \<noteq> 0" "dst \<noteq> 0" "dst + sz \<le> 2 ^ 32" "off + sz \<le> 2 ^ 32"
  shows "load dst p off sz a = Inr (a\<lparr>constraints := constraints a @ uncollapsed_load dst p off sz\<rparr>)"
  using assms by (simp add: load_def load_loop_nowrap uncollapsed_load_def)

lemma store_emits:
  assumes "p \<noteq> 0" "src \<noteq> 0" "src + sz \<le> 2 ^ 32" "off + sz \<le> 2 ^ 32"
  shows "store p src off sz a = Inr (a\<lparr>constraints := constraints a @ uncollapsed_store p src off sz\<rparr>)"
  using assms by (simp add: store_def store_loop_nowrap uncollapsed_store_def)

text \<open>
  C4. When \<open>objectNode\<close> returns a nonzero object \<open>obj\<close> for the pointer operand, \<open>genLoad\<close>
  is the copy from \<open>obj + offset\<close> into \<open>dst\<close> and \<open>genStore\<close> the copy from \<open>src\<close> into
  \<open>obj + offset\<close>; when it returns 0 they are the \<open>load\<close> and the \<open>store\<close> through the
  value node \<open>p\<close> of the pointer. For ids that do not run past the largest node id, the
  copy emits the constraints \<open>collapsed_load\<close> (\<open>collapsed_store\<close>) where \<open>load\<close> (\<open>store\<close>)
  would emit \<open>uncollapsed_load\<close> (\<open>uncollapsed_store\<close>). And whenever, in the solution of a
  constraint set with the uncollapsed constraints, the points-to set of \<open>p\<close> is the
  singleton \<open>obj\<close>, that solution equals the solution of the set with the collapsed
  constraints in their place, whatever the other constraints \<open>C\<close> and the (monotone) rules
  \<open>F\<close> of the complex constraints are.
\<close>

theorem preapplied_propagation_refines:
  "(\<forall>obj a1. objectNode cgn ptr a = Inr (obj, a1) \<and> obj \<noteq> 0 \<longrightarrow>
      genLoad cgn dst ptr off sz a = copy dst (add32 obj off) sz a1 \<and>
      genStore cgn ptr src off sz a = copy (add32 obj off) src sz a1) \<and>
   (\<forall>a1 p a2. objectNode cgn ptr a = Inr (0, a1) \<and> valueNode ptr a1 = Inr (p, a2) \<longrightarrow>
      genLoad cgn dst ptr off sz a = load dst p off sz a2 \<and>
      genStore cgn ptr src off sz a = store p src off sz a2) \<and>
   (\<forall>obj b. obj \<noteq> 0 \<and> dst \<noteq> 0 \<and> dst \<noteq> obj + off \<and> 0 < sz \<and>
        obj + off + sz \<le> 2 ^ 32 \<and> dst + sz \<le> 2 ^ 32 \<longrightarrow>
      copy dst (add32 obj off) sz b =
        Inr (b\<lparr>constraints := constraints b @ collapsed_load dst obj off sz\<rparr>)) \<and>
   (\<forall>obj b. obj \<noteq> 0 \<and> src \<noteq> 0 \<and> src \<noteq> obj + off \<and> 0 < sz \<and>
        obj + off + sz \<le> 2 ^ 32 \<and> src + sz \<le> 2 ^ 32 \<longrightarrow>
      copy (add32 obj off) src sz b =
        Inr (b\<lparr>constraints := constraints b @ collapsed_store obj src off sz\<rparr>)) \<and>
   (\<forall>p b. p \<noteq> 0 \<and> dst \<noteq> 0 \<and> dst + sz \<le> 2 ^ 32 \<and> off + sz \<le> 2 ^ 32 \<longrightarrow>
      load dst p off sz b = Inr (b\<lparr>constraints := constraints b @ uncollapsed_load dst p off sz\<rparr>)) \<and>
   (\<forall>p b. p \<noteq> 0 \<and> src \<noteq> 0 \<and> src + sz \<le> 2 ^ 32 \<and> off + sz \<le> 2 ^ 32 \<longrightarrow>
      store p src off sz b = Inr (b\<lparr>constraints := constraints b @ uncollapsed_store p src off sz\<rparr>)) \<and>
   (\<forall>F C p obj.
      mono F \<and> (\<forall>ob. (p, ob) \<in> solution F (C \<union> set (uncollapsed_load dst p off sz)) \<longleftrightarrow> ob = obj) \<longrightarrow>
      solution F (C \<union> set (uncollapsed_load dst p off sz)) =
      solution F (C \<union> set (collapsed_load dst obj off sz))) \<and>
   (\<forall>F C p obj.
      mono F \<and> (\<forall>ob. (p, ob) \<in> solution F (C \<union> set (uncollapsed_store p src off sz)) \<longleftrightarrow> ob = obj) \<longrightarrow>
      solution F (C \<union> set (uncollapsed_store p src off sz)) =
      solution F (C \<union> set (collapsed_store obj src off sz)))"
proof (intro conjI allI impI)
  show "genLoad cgn dst ptr off sz a = copy dst (add32 obj off) sz a1"
    if "objectNode cgn ptr a = Inr (obj, a1) \<and> obj \<noteq> 0" for obj a1
    using that by (simp add: genLoad_known)
  show "genStore cgn ptr src off sz a = copy (add32 obj off) src sz a1"
    if "objectNode cgn ptr a = Inr (obj, a1) \<and> obj \<noteq> 0" for obj a1
    using that by (simp add: genStore_known)
  show "genLoad cgn dst ptr off sz a = load dst p off sz a2"
    if "objectNode cgn ptr a = Inr (0, a1) \<and> valueNode ptr a1 = Inr (p, a2)" for a1 p a2
    using that by (simp add: genLoad_unknown)
  show "genStore cgn ptr src off sz a = store p src off sz a2"
    if "objectNode cgn ptr a = Inr (0, a1) \<and> valueNode ptr a1 = Inr (p, a2)" for a1 p a2
    using that by (simp add: genStore_unknown)
  show "copy dst (add32 obj off) sz b =
        Inr (b\<lparr>constraints := constraints b @ collapsed_load dst obj off sz\<rparr>)"
    if "obj \<noteq> 0 \<and> dst \<noteq> 0 \<and> dst \<noteq> obj + off \<and> 0 < sz \<and>
        obj + off + sz \<le> 2 ^ 32 \<and> dst + sz \<le> 2 ^ 32" for obj b
  proof -
    from that have "add32 obj off = obj + off" by (intro add32_nowrap) simp
    with that show ?thesis
      using copy_emits[of "obj + off" dst sz b] by (simp add: collapsed_load_def)
  qed
  show "copy (add32 obj off) src sz b =
        Inr (b\<lparr>constraints := constraints b @ collapsed_store obj src off sz\<rparr>)"
    if "obj \<noteq> 0 \<and> src \<noteq> 0 \<and> src \<noteq> obj + off \<and> 0 < sz \<and>
        obj + off + sz \<le> 2 ^ 32 \<and> src + sz \<le> 2 ^ 32" for obj b
  proof -
    from that have "add32 obj off = obj + off" by (intro add32_nowrap) simp
    with that show ?thesis
      using copy_emits[of src "obj + off" sz b] by (simp add: collapsed_store_def)
  qed
  show "load dst p off sz b = Inr (b\<lparr>constraints := constraints b @ uncollapsed_load dst p off sz\<rparr>)"
    if "p \<noteq> 0 \<and> dst \<noteq> 0 \<and> dst + sz \<le> 2 ^ 32 \<and> off + sz \<le> 2 ^ 32" for p b
    using that by (simp add: load_emits)
  show "store p src off sz b = Inr (b\<lparr>constraints := constraints b @ uncollapsed_store p src off sz\<rparr>)"
    if "p \<noteq> 0 \<and> src \<noteq> 0 \<and> src + sz \<le> 2 ^ 32 \<and> off + sz \<le> 2 ^ 32" for p b
    using that by (simp add: store_emits)
  show "solution F (C \<union> set (uncollapsed_load dst p off sz)) =
      solution F (C \<union> set (collapsed_load dst obj off sz))"
    if "mono F \<and> (\<forall>ob. (p, ob) \<in> solution F (C \<union> set (uncollapsed_load dst p off sz)) \<longleftrightarrow> ob = obj)"
    for F C p obj
    using that preapplied_load[of F p C dst off sz obj] by blast
  show "solution F (C \<union> set (uncollapsed_store p src off sz)) =
      solution F (C \<union> set (collapsed_store obj src off sz))"
    if "mono F \<and> (\<forall>ob. (p, ob) \<in> solution F (C \<union> set (uncollapsed_store p src off sz)) \<longleftrightarrow> ob = obj)"
    for F C p obj
    using that preapplied_store[of F p C src off sz obj] by blast
qed

text \<open>
  The pointer \<open>t0\<close> of an allocation met in the contour \<open>ex_cg\<close>: its object is node 2. In the
  constraint set, node 3 is the value node of the pointer, and the object holds the
  label 9.
\<close>

lemma ex_uncollapsed_solution:
  "solution (\<lambda>S. {}) ({AddrC 3 2, AddrC 2 9} \<union> set (uncollapsed_load 1 3 0 1)) =
     {(3, 2), (2, 9), (1, 9)}"
proof (rule antisym)
  have m: "mono (\<lambda>S :: (nat \<times> nat) set. {} :: (nat \<times> nat) set)" by (simp add: mono_def)
  let ?C = "{AddrC 3 2, AddrC 2 9} \<union> set (uncollapsed_load 1 3 0 1)"
  let ?S = "solution (\<lambda>S. {}) ?C"
  show "?S \<subseteq> {(3, 2), (2, 9), (1, 9)}"
    by (rule solution_least) (auto simp: propagate_def rule_def uncollapsed_load_def)
  have 1: "(3, 2) \<in> ?S" using solution_rule[OF m, of "AddrC 3 2" ?C] by (simp add: rule_def)
  have 2: "(2, 9) \<in> ?S" using solution_rule[OF m, of "AddrC 2 9" ?C] by (simp add: rule_def)
  have "(1, 9) \<in> rule (LoadC 0 1 3) ?S" using 1 2 by (auto simp: rule_def)
  with solution_rule[OF m, of "LoadC 0 1 3" ?C] have 3: "(1, 9) \<in> ?S"
    by (auto simp: uncollapsed_load_def)
  from 1 2 3 show "{(3, 2), (2, 9), (1, 9)} \<subseteq> ?S" by simp
qed

theorem preapplied_propagation_refines_witness:
  "(\<exists>a1. objectNode (Some ex_cg) ex_alloc ex0 = Inr (2, a1) \<and>
         genLoad (Some ex_cg) 1 ex_alloc 0 1 ex0 =
           Inr (a1\<lparr>constraints := constraints a1 @ collapsed_load 1 2 0 1\<rparr>)) \<and>
   collapsed_load 1 2 0 1 = [CopyC 1 2] \<and>
   solution (\<lambda>S. {}) ({AddrC 3 2, AddrC 2 9} \<union> set (uncollapsed_load 1 3 0 1)) =
     {(3, 2), (2, 9), (1, 9)} \<and>
   solution (\<lambda>S. {}) ({AddrC 3 2, AddrC 2 9} \<union> set (collapsed_load 1 2 0 1)) =
     {(3, 2), (2, 9), (1, 9)}"
proof (intro conjI)
  note th = preapplied_propagation_refines[where cgn = "Some ex_cg" and ptr = ex_alloc and a = ex0
      and dst = 1 and off = 0 and sz = 1]
  obtain a1 where on: "objectNode (Some ex_cg) ex_alloc ex0 = Inr (2, a1)"
    using ex_objectNode_alloc by blast
  have g: "genLoad (Some ex_cg) 1 ex_alloc 0 1 ex0 = copy 1 (add32 2 0) 1 a1"
    using th[THEN conjunct1, rule_format, of 2 a1] on by simp
  have c: "copy 1 (add32 2 0) 1 a1 = Inr (a1\<lparr>constraints := constraints a1 @ collapsed_load 1 2 0 1\<rparr>)"
    using th[THEN conjunct2, THEN conjunct2, THEN conjunct1, rule_format, of 2 a1] by simp
  from on g c show "\<exists>a1. objectNode (Some ex_cg) ex_alloc ex0 = Inr (2, a1) \<and>
         genLoad (Some ex_cg) 1 ex_alloc 0 1 ex0 =
           Inr (a1\<lparr>constraints := constraints a1 @ collapsed_load 1 2 0 1\<rparr>)"
    by auto
  show "collapsed_load 1 2 0 1 = [CopyC 1 2]" by (simp add: collapsed_load_def)
  show u: "solution (\<lambda>S. {}) ({AddrC 3 2, AddrC 2 9} \<union> set (uncollapsed_load 1 3 0 1)) =
     {(3, 2), (2, 9), (1, 9)}"
    by (rule ex_uncollapsed_solution)
  have m: "mono (\<lambda>S :: (nat \<times> nat) set. {} :: (nat \<times> nat) set)" by (simp add: mono_def)
  have single: "\<forall>ob. (3, ob) \<in> solution (\<lambda>S. {}) ({AddrC 3 2, AddrC 2 9} \<union> set (uncollapsed_load 1 3 0 1))
      \<longleftrightarrow> ob = 2"
    unfolding u by simp
  from th[THEN conjunct2, THEN conjunct2, THEN conjunct2, THEN conjunct2, THEN conjunct2,
      THEN conjunct2, THEN conjunct1, rule_format, of "\<lambda>S. {}" 3 "{AddrC 3 2, AddrC 2 9}" 2]
    m single u
  show "solution (\<lambda>S. {}) ({AddrC 3 2, AddrC 2 9} \<union> set (collapsed_load 1 2 0 1)) =
     {(3, 2), (2, 9), (1, 9)}"
    by simp
qed

end
